theory Spec2Isabelle
  imports Main
begin

section \<open>The c3lingo data model\<close>

text \<open>
  \<^verbatim>\<open>c3lingo/models.py\<close> declares ten Django model classes. The module is declarative:
  each class lists its columns, each foreign key names its target and its
  \<^verbatim>\<open>on_delete\<close> policy, and \<^verbatim>\<open>Meta.unique_together\<close> lists the uniqueness constraints.
  The embedding keeps that shape. The declarations are transcribed as data
  (\<open>fields_of\<close>, \<open>unique_together\<close>), and the operations the module relies on
  (attribute access on an instance, \<^verbatim>\<open>objects.create\<close>, \<^verbatim>\<open>delete\<close>) are functions that read
  those declarations, following the behaviour Django documents for them.
  The five properties the module defines itself (\<^verbatim>\<open>language_or_any\<close>, \<^verbatim>\<open>slug\<close>,
  \<^verbatim>\<open>watch_url\<close>, \<^verbatim>\<open>slides_url\<close>, \<^verbatim>\<open>avatar_url\<close>) are translated statement by statement.
\<close>

subsection \<open>Models, column types and Python values\<close>

text \<open>The ten classes of \<^verbatim>\<open>models.py\<close>, and \<^verbatim>\<open>django.contrib.auth.models.User\<close>, which
  four of them reference.\<close>

datatype model =
    Language | Conference | Room | Talk | Translation | Translator
  | TranslatorSpeaks | Booth | Shift | ShiftAssignment | User

datatype on_delete = CASCADE | PROTECT | SET_NULL

text \<open>The values a column or a Python expression of the module can hold. \<open>PyKey\<close> is the
  primary key stored in a foreign-key column. Strings are 8-bit character lists.\<close>

datatype pyval =
    PyNone
  | PyStr string
  | PyBytes string
  | PyBool bool
  | PyInt int
  | PyDateTime int
  | PyKey nat

datatype field_type =
    CharField nat
  | TextField
  | DateTimeField
  | BooleanField
  | PositiveIntegerField
  | ForeignKey model on_delete
  | OneToOneField model on_delete

text \<open>A column default: none, a constant, or the call \<^verbatim>\<open>get_random_string(n)\<close>.\<close>

datatype field_default = NOT_PROVIDED | Const pyval | RandomString nat

text \<open>A declared column: name, type, \<^verbatim>\<open>null=\<close> and \<^verbatim>\<open>default=\<close>. The \<^verbatim>\<open>blank=\<close> option only
  concerns form validation and is not part of the storage model.\<close>

datatype model_field =
  Field (fname: string) (ftype: field_type) (fnull: bool) (fdefault: field_default)

subsection \<open>The schema, as declared\<close>

text \<open>\<^verbatim>\<open>TalkBaseModel\<close> is abstract: its four columns are inherited by \<^verbatim>\<open>Talk\<close> and
  \<^verbatim>\<open>Translation\<close>.\<close>

definition TalkBaseModel :: "model_field list" where
  "TalkBaseModel =
    [Field ''title'' TextField False NOT_PROVIDED,
     Field ''subtitle'' TextField False NOT_PROVIDED,
     Field ''abstract'' TextField False NOT_PROVIDED,
     Field ''description'' TextField False NOT_PROVIDED]"

text \<open>The columns of \<^verbatim>\<open>User\<close> are those of Django's stock user model (the clock default
  of \<^verbatim>\<open>date_joined\<close> is left out); the module only reads \<^verbatim>\<open>email\<close>. Relations that other
  applications declare towards \<^verbatim>\<open>User\<close> are outside this schema.\<close>

fun fields_of :: "model \<Rightarrow> model_field list" where
  "fields_of Language =
    [Field ''code'' (CharField 8) False NOT_PROVIDED,
     Field ''name_en'' (CharField 100) False NOT_PROVIDED,
     Field ''name_self'' (CharField 100) False NOT_PROVIDED]"
| "fields_of Conference =
    [Field ''shortname'' (CharField 100) False NOT_PROVIDED,
     Field ''name'' TextField False NOT_PROVIDED,
     Field ''image_url'' TextField False NOT_PROVIDED,
     Field ''start'' DateTimeField True NOT_PROVIDED,
     Field ''end'' DateTimeField True NOT_PROVIDED,
     Field ''fahrplan_version'' TextField False NOT_PROVIDED]"
| "fields_of Room =
    [Field ''conference'' (ForeignKey Conference PROTECT) False NOT_PROVIDED,
     Field ''name'' TextField False NOT_PROVIDED]"
| "fields_of Talk = TalkBaseModel @
    [Field ''conference'' (ForeignKey Conference PROTECT) False NOT_PROVIDED,
     Field ''fahrplan_id'' (CharField 100) False NOT_PROVIDED,
     Field ''fahrplan_guid'' (CharField 100) False NOT_PROVIDED,
     Field ''logo_url'' TextField False NOT_PROVIDED,
     Field ''talk_type'' TextField False NOT_PROVIDED,
     Field ''speakers'' TextField False NOT_PROVIDED,
     Field ''language'' (ForeignKey Language PROTECT) False NOT_PROVIDED,
     Field ''room'' (ForeignKey Room PROTECT) False NOT_PROVIDED,
     Field ''start'' DateTimeField False NOT_PROVIDED,
     Field ''end'' DateTimeField False NOT_PROVIDED]"
| "fields_of Translation = TalkBaseModel @
    [Field ''author'' (ForeignKey User SET_NULL) True NOT_PROVIDED,
     Field ''talk'' (ForeignKey Talk CASCADE) False NOT_PROVIDED,
     Field ''language'' (ForeignKey Language PROTECT) False NOT_PROVIDED]"
| "fields_of Translator =
    [Field ''user'' (OneToOneField User CASCADE) False NOT_PROVIDED,
     Field ''confirmed'' BooleanField False NOT_PROVIDED,
     Field ''bio'' TextField False NOT_PROVIDED,
     Field ''contact_info'' TextField False NOT_PROVIDED,
     Field ''secret_token'' (CharField 64) False (RandomString 64)]"
| "fields_of TranslatorSpeaks =
    [Field ''user'' (ForeignKey User CASCADE) False NOT_PROVIDED,
     Field ''language'' (ForeignKey Language PROTECT) False NOT_PROVIDED]"
| "fields_of Booth =
    [Field ''room'' (ForeignKey Room PROTECT) False NOT_PROVIDED,
     Field ''name'' TextField False NOT_PROVIDED,
     Field ''location'' TextField False NOT_PROVIDED,
     Field ''dect'' (CharField 30) False NOT_PROVIDED,
     Field ''desired_occupancy'' PositiveIntegerField False NOT_PROVIDED,
     Field ''maximum_occupancy'' PositiveIntegerField False NOT_PROVIDED]"
| "fields_of Shift =
    [Field ''booth'' (ForeignKey Booth PROTECT) False NOT_PROVIDED,
     Field ''talk'' (ForeignKey Talk CASCADE) False NOT_PROVIDED,
     Field ''language'' (ForeignKey Language PROTECT) True NOT_PROVIDED]"
| "fields_of ShiftAssignment =
    [Field ''shift'' (ForeignKey Shift CASCADE) False NOT_PROVIDED,
     Field ''user'' (ForeignKey User CASCADE) False NOT_PROVIDED,
     Field ''waitlisted'' BooleanField False (Const (PyBool True)),
     Field ''freeloaded'' BooleanField False (Const (PyBool False)),
     Field ''comment'' TextField False NOT_PROVIDED]"
| "fields_of User =
    [Field ''password'' (CharField 128) False NOT_PROVIDED,
     Field ''last_login'' DateTimeField True NOT_PROVIDED,
     Field ''is_superuser'' BooleanField False (Const (PyBool False)),
     Field ''username'' (CharField 150) False NOT_PROVIDED,
     Field ''first_name'' (CharField 30) False NOT_PROVIDED,
     Field ''last_name'' (CharField 150) False NOT_PROVIDED,
     Field ''email'' (CharField 254) False NOT_PROVIDED,
     Field ''is_staff'' BooleanField False (Const (PyBool False)),
     Field ''is_active'' BooleanField False (Const (PyBool True)),
     Field ''date_joined'' DateTimeField False NOT_PROVIDED]"

text \<open>\<^verbatim>\<open>Meta.unique_together\<close> of \<^verbatim>\<open>Talk\<close> and \<^verbatim>\<open>Translation\<close>.\<close>

fun unique_together :: "model \<Rightarrow> string list list" where
  "unique_together Talk = [[''conference'', ''fahrplan_id'']]"
| "unique_together Translation = [[''talk'', ''language'']]"
| "unique_together _ = []"

text \<open>The target and policy of a relation column. A one-to-one column is a foreign key
  that is also unique.\<close>

definition fk_target :: "model_field \<Rightarrow> (model \<times> on_delete) option" where
  "fk_target f =
     (case ftype f of
        ForeignKey m p \<Rightarrow> Some (m, p)
      | OneToOneField m p \<Rightarrow> Some (m, p)
      | _ \<Rightarrow> None)"

definition is_unique :: "model_field \<Rightarrow> bool" where
  "is_unique f = (case ftype f of OneToOneField m p \<Rightarrow> True | _ \<Rightarrow> False)"

text \<open>All uniqueness constraints of a table: the unique columns, then
  \<^verbatim>\<open>unique_together\<close>. (\<^verbatim>\<open>User.username\<close> is unique in Django's user model.)\<close>

definition unique_sets :: "model \<Rightarrow> string list list" where
  "unique_sets m =
     map (\<lambda>f. [fname f]) (filter is_unique (fields_of m))
     @ (if m = User then [[''username'']] else [])
     @ unique_together m"

definition lookup_field :: "model \<Rightarrow> string \<Rightarrow> model_field option" where
  "lookup_field m n = find (\<lambda>f. fname f = n) (fields_of m)"

subsection \<open>Rows and the database\<close>

record row =
  row_model :: model
  pk :: nat
  attrs :: "(string \<times> pyval) list"

type_synonym key = "model \<times> nat"
type_synonym db = "row list"

definition key :: "row \<Rightarrow> key" where
  "key r = (row_model r, pk r)"

definition attr :: "row \<Rightarrow> string \<Rightarrow> pyval" where
  "attr r n = (case map_of (attrs r) n of Some v \<Rightarrow> v | None \<Rightarrow> PyNone)"

definition find_row :: "db \<Rightarrow> key \<Rightarrow> row option" where
  "find_row db k = find (\<lambda>r. key r = k) db"

subsection \<open>Python objects, exceptions and attribute access\<close>

datatype error =
    AttributeError
  | RelatedObjectDoesNotExist
  | DoesNotExist
  | NameError
  | TypeError
  | KeyError
  | IndexError
  | IntegrityError
  | ProtectedError

text \<open>Django declares \<^verbatim>\<open>RelatedObjectDoesNotExist\<close> as a subclass of both the related
  model's \<^verbatim>\<open>DoesNotExist\<close> and \<^verbatim>\<open>AttributeError\<close>; a plain \<^verbatim>\<open>DoesNotExist\<close> is not an
  \<^verbatim>\<open>AttributeError\<close>.\<close>

fun is_AttributeError :: "error \<Rightarrow> bool" where
  "is_AttributeError AttributeError = True"
| "is_AttributeError RelatedObjectDoesNotExist = True"
| "is_AttributeError _ = False"

datatype pyobj = Val pyval | Instance row

definition bind :: "error + 'a \<Rightarrow> ('a \<Rightarrow> error + 'b) \<Rightarrow> error + 'b" where
  "bind x f = (case x of Inl e \<Rightarrow> Inl e | Inr v \<Rightarrow> f v)"

text \<open>
  \<^verbatim>\<open>instance.name\<close> for a data attribute of a model instance. A name that is not a
  declared column (nor \<^verbatim>\<open>id\<close>/\<^verbatim>\<open>pk\<close>) raises \<^verbatim>\<open>AttributeError\<close>. A plain column yields
  its stored value. A relation column loads the referenced row, and raises
  \<^verbatim>\<open>DoesNotExist\<close> when that row is missing; when the column is empty it yields \<^verbatim>\<open>None\<close>
  if the column is nullable and raises \<^verbatim>\<open>RelatedObjectDoesNotExist\<close> otherwise.
\<close>

definition getattr :: "db \<Rightarrow> row \<Rightarrow> string \<Rightarrow> error + pyobj" where
  "getattr db r n =
     (if n = ''id'' \<or> n = ''pk'' then Inr (Val (PyInt (int (pk r))))
      else case lookup_field (row_model r) n of
        None \<Rightarrow> Inl AttributeError
      | Some f \<Rightarrow>
         (case fk_target f of
            None \<Rightarrow> Inr (Val (attr r n))
          | Some (m, p) \<Rightarrow>
             (case attr r n of
                PyKey i \<Rightarrow>
                  (case find_row db (m, i) of
                     Some r' \<Rightarrow> Inr (Instance r')
                   | None \<Rightarrow> Inl DoesNotExist)
              | _ \<Rightarrow> if fnull f then Inr (Val PyNone) else Inl RelatedObjectDoesNotExist)))"

text \<open>The same on an arbitrary object: \<^verbatim>\<open>None\<close>, strings and numbers carry no columns.\<close>

definition getattr_obj :: "db \<Rightarrow> pyobj \<Rightarrow> string \<Rightarrow> error + pyobj" where
  "getattr_obj db obj n =
     (case obj of Instance r \<Rightarrow> getattr db r n | Val v \<Rightarrow> Inl AttributeError)"

text \<open>\<^verbatim>\<open>s.lower()\<close>: defined on strings only.\<close>

definition lower_char :: "char \<Rightarrow> char" where
  "lower_char c =
     (let n = (of_char c :: nat) in if 65 \<le> n \<and> n \<le> 90 then char_of (n + 32) else c)"

definition str_lower :: "pyobj \<Rightarrow> error + pyobj" where
  "str_lower obj =
     (case obj of
        Val (PyStr s) \<Rightarrow> Inr (Val (PyStr (map lower_char s)))
      | _ \<Rightarrow> Inl AttributeError)"

text \<open>\<^verbatim>\<open>hashlib.md5(data)\<close> accepts bytes-like data only; on Python 3 a \<^verbatim>\<open>str\<close> argument
  raises \<^verbatim>\<open>TypeError\<close>. The result is the buffered input; the digest function itself is a
  parameter of \<open>avatar_url\<close>.\<close>

definition hashlib_md5 :: "pyobj \<Rightarrow> error + string" where
  "hashlib_md5 obj =
     (case obj of
        Val (PyBytes b) \<Rightarrow> Inr b
      | _ \<Rightarrow> Inl TypeError)"

text \<open>\<^verbatim>\<open>template.format(*args, **kwargs)\<close> for templates made of literal text,
  named fields \<^verbatim>\<open>{name}\<close> and automatically numbered fields \<^verbatim>\<open>{}\<close>. The conversion of an
  argument to text is the parameter \<open>str\<close>.\<close>

datatype piece = Lit string | Named string | Auto

fun format :: "(pyobj \<Rightarrow> string) \<Rightarrow> piece list \<Rightarrow> pyobj list \<Rightarrow> (string \<times> pyobj) list
    \<Rightarrow> error + string" where
  "format str [] args kwargs = Inr []"
| "format str (Lit s # ps) args kwargs =
     bind (format str ps args kwargs) (\<lambda>rest. Inr (s @ rest))"
| "format str (Named n # ps) args kwargs =
     (case map_of kwargs n of
        None \<Rightarrow> Inl KeyError
      | Some v \<Rightarrow> bind (format str ps args kwargs) (\<lambda>rest. Inr (str v @ rest)))"
| "format str (Auto # ps) args kwargs =
     (case args of
        [] \<Rightarrow> Inl IndexError
      | v # args' \<Rightarrow> bind (format str ps args' kwargs) (\<lambda>rest. Inr (str v @ rest)))"

text \<open>The names bound at module level in \<^verbatim>\<open>models.py\<close>: its imports and its classes.
  Loading any other global name raises \<^verbatim>\<open>NameError\<close> (no Python builtin is called
  \<^verbatim>\<open>parametrize\<close>).\<close>

definition module_names :: "string list" where
  "module_names =
    [''models'', ''User'', ''get_random_string'', ''hashlib'',
     ''Language'', ''Conference'', ''Room'', ''TalkBaseModel'', ''Talk'', ''Translation'',
     ''Translator'', ''TranslatorSpeaks'', ''Booth'', ''Shift'', ''ShiftAssignment'']"

definition load_global :: "string \<Rightarrow> error + string" where
  "load_global n = (if n \<in> set module_names then Inr n else Inl NameError)"

subsection \<open>The properties defined in \<^verbatim>\<open>models.py\<close>\<close>

text \<open>\<^verbatim>\<open>Shift.language_or_any\<close> (lines 179-183).\<close>

definition language_or_any :: "db \<Rightarrow> row \<Rightarrow> error + pyobj" where
  "language_or_any db self =
     bind (getattr db self ''language'') (\<lambda>language.
       if language \<noteq> Val PyNone then getattr db self ''language''
       else Inr (Val (PyStr ''*'')))"

text \<open>\<^verbatim>\<open>Talk.slug\<close> (lines 93-99). The keyword arguments are evaluated left to right, and
  in \<^verbatim>\<open>parametrize(self.name)\<close> the callee is loaded before its argument. \<open>call\<close> is Python's
  call of a loaded global on one argument.\<close>

definition slug :: "(pyobj \<Rightarrow> string) \<Rightarrow> (string \<Rightarrow> pyobj \<Rightarrow> error + pyobj) \<Rightarrow> db \<Rightarrow> row
    \<Rightarrow> error + pyobj" where
  "slug str call db self =
     bind (getattr db self ''conference'') (\<lambda>conference.
     bind (getattr_obj db conference ''acronym'') (\<lambda>conference_name.
     bind (getattr db self ''fahrplan_id'') (\<lambda>fahrplan_id.
     bind (load_global ''parametrize'') (\<lambda>parametrize.
     bind (getattr db self ''name'') (\<lambda>name.
     bind (call parametrize name) (\<lambda>name'.
     bind (format str
             [Named ''conference_name'', Lit ''-'', Named ''fahrplan_id'', Lit ''-'',
              Named ''name'']
             []
             [(''conference_name'', conference_name), (''fahrplan_id'', fahrplan_id),
              (''name'', name')])
       (\<lambda>s. Inr (Val (PyStr s)))))))))"

text \<open>\<^verbatim>\<open>Talk.watch_url\<close> (lines 101-103).\<close>

definition watch_url :: "(pyobj \<Rightarrow> string) \<Rightarrow> (string \<Rightarrow> pyobj \<Rightarrow> error + pyobj) \<Rightarrow> db \<Rightarrow> row
    \<Rightarrow> error + pyobj" where
  "watch_url str call db self =
     bind (slug str call db self) (\<lambda>slug'.
     bind (format str [Lit ''https://media.ccc.de/v/'', Named ''slug''] [] [(''slug'', slug')])
       (\<lambda>s. Inr (Val (PyStr s))))"

text \<open>\<^verbatim>\<open>Talk.slides_url\<close> (lines 105-107): \<^verbatim>\<open>self.guid\<close> is passed as a positional
  argument to a template with the named field \<^verbatim>\<open>{guid}\<close>.\<close>

definition slides_url :: "(pyobj \<Rightarrow> string) \<Rightarrow> db \<Rightarrow> row \<Rightarrow> error + pyobj" where
  "slides_url str db self =
     bind (getattr db self ''guid'') (\<lambda>guid.
     bind (format str
             [Lit ''https://speakers.c3lingo.org/talks/'', Named ''guid'', Lit ''/''] [guid] [])
       (\<lambda>s. Inr (Val (PyStr s))))"

text \<open>\<^verbatim>\<open>Translator.avatar_url\<close> (lines 130-139). \<open>hexdigest\<close> maps the hashed bytes to the
  hexadecimal MD5 digest.\<close>

definition avatar_url :: "(pyobj \<Rightarrow> string) \<Rightarrow> (string \<Rightarrow> string) \<Rightarrow> db \<Rightarrow> row
    \<Rightarrow> error + pyobj" where
  "avatar_url str hexdigest db self =
     bind (getattr db self ''user'') (\<lambda>user.
     bind (getattr_obj db user ''email'') (\<lambda>email.
     bind (str_lower email) (\<lambda>lowered.
     bind (hashlib_md5 lowered) (\<lambda>h.
     bind (format str [Lit ''https://www.gravatar.com/avatar/'', Auto]
             [Val (PyStr (hexdigest h))] [])
       (\<lambda>s. Inr (Val (PyStr s)))))))"

subsection \<open>Random tokens\<close>

text \<open>The random source is the sequence of its future draws. \<^verbatim>\<open>choice(seq)\<close> consumes one
  draw and indexes \<open>seq\<close> with it.\<close>

type_synonym rng = "nat \<Rightarrow> nat"

definition choice :: "'a list \<Rightarrow> rng \<Rightarrow> 'a \<times> rng" where
  "choice seq g = (seq ! (g 0 mod length seq), \<lambda>i. g (Suc i))"

definition allowed_chars :: string where
  "allowed_chars = ''abcdefghijklmnopqrstuvwxyzABCDEFGHIJKLMNOPQRSTUVWXYZ0123456789''"

text \<open>\<^verbatim>\<open>get_random_string(length)\<close> of \<^verbatim>\<open>django.utils.crypto\<close>: \<open>length\<close> independent choices
  from the default alphabet.\<close>

fun get_random_string :: "nat \<Rightarrow> rng \<Rightarrow> string \<times> rng" where
  "get_random_string 0 g = ([], g)"
| "get_random_string (Suc n) g =
     (let (c, g') = choice allowed_chars g;
          (s, g'') = get_random_string n g'
      in (c # s, g''))"

subsection \<open>Creating rows\<close>

text \<open>The value of a column the caller did not supply: the declared default, else the
  empty string for a non-nullable text column, else \<^verbatim>\<open>None\<close>.\<close>

definition empty_strings_allowed :: "field_type \<Rightarrow> bool" where
  "empty_strings_allowed t = (case t of CharField n \<Rightarrow> True | TextField \<Rightarrow> True | _ \<Rightarrow> False)"

definition get_default :: "model_field \<Rightarrow> rng \<Rightarrow> pyval \<times> rng" where
  "get_default f g =
     (case fdefault f of
        Const v \<Rightarrow> (v, g)
      | RandomString n \<Rightarrow> (let (s, g') = get_random_string n g in (PyStr s, g'))
      | NOT_PROVIDED \<Rightarrow>
          (if empty_strings_allowed (ftype f) \<and> \<not> fnull f then PyStr [] else PyNone, g))"

text \<open>Building the instance: the columns in declaration order, each taken from the
  keyword arguments or from its default.\<close>

fun init_attrs :: "model_field list \<Rightarrow> (string \<times> pyval) list \<Rightarrow> rng
    \<Rightarrow> (string \<times> pyval) list \<times> rng" where
  "init_attrs [] kwargs g = ([], g)"
| "init_attrs (f # fs) kwargs g =
     (let (v, g') = (case map_of kwargs (fname f) of
                       Some v \<Rightarrow> (v, g)
                     | None \<Rightarrow> get_default f g);
          (as, g'') = init_attrs fs kwargs g'
      in ((fname f, v) # as, g''))"

definition column :: "(string \<times> pyval) list \<Rightarrow> string \<Rightarrow> pyval" where
  "column as n = (case map_of as n of Some v \<Rightarrow> v | None \<Rightarrow> PyNone)"

text \<open>The checks of the \<^verbatim>\<open>INSERT\<close>: \<^verbatim>\<open>NOT NULL\<close>, foreign keys, uniqueness. In SQL a
  \<^verbatim>\<open>NULL\<close> never conflicts with another value.\<close>

definition not_null_ok :: "model \<Rightarrow> (string \<times> pyval) list \<Rightarrow> bool" where
  "not_null_ok m as = (\<forall>f \<in> set (fields_of m). fnull f \<or> column as (fname f) \<noteq> PyNone)"

definition fk_ok :: "db \<Rightarrow> model \<Rightarrow> (string \<times> pyval) list \<Rightarrow> bool" where
  "fk_ok db m as =
     (\<forall>f \<in> set (fields_of m).
        case fk_target f of
          None \<Rightarrow> True
        | Some (m', p) \<Rightarrow>
            (case column as (fname f) of
               PyNone \<Rightarrow> True
             | PyKey i \<Rightarrow> (m', i) \<in> set (map key db)
             | _ \<Rightarrow> False))"

definition conflicts :: "db \<Rightarrow> model \<Rightarrow> (string \<times> pyval) list \<Rightarrow> string list \<Rightarrow> bool" where
  "conflicts db m as u =
     (\<exists>r \<in> set db. row_model r = m \<and>
        (\<forall>n \<in> set u. column as n \<noteq> PyNone \<and> attr r n = column as n))"

definition next_pk :: "db \<Rightarrow> model \<Rightarrow> nat" where
  "next_pk db m = Suc (fold max (map pk (filter (\<lambda>r. row_model r = m) db)) 0)"

definition insert_row :: "db \<Rightarrow> model \<Rightarrow> (string \<times> pyval) list \<Rightarrow> error + db \<times> row" where
  "insert_row db m as =
     (if \<not> not_null_ok m as \<or> \<not> fk_ok db m as
         \<or> (\<exists>u \<in> set (unique_sets m). conflicts db m as u)
      then Inl IntegrityError
      else let r = \<lparr>row_model = m, pk = next_pk db m, attrs = as\<rparr>
           in Inr (db @ [r], r))"

text \<open>\<^verbatim>\<open>Model.objects.create(**kwargs)\<close>: build the instance (which evaluates the
  defaults), reject unknown keyword arguments, then insert. The result is the new
  database with the new row, or the exception; the random source advances either way.\<close>

definition create :: "model \<Rightarrow> (string \<times> pyval) list \<Rightarrow> db \<Rightarrow> rng
    \<Rightarrow> (error + db \<times> row) \<times> rng" where
  "create m kwargs db g =
     (let (as, g') = init_attrs (fields_of m) kwargs g
      in if \<exists>n \<in> set (map fst kwargs). lookup_field m n = None
         then (Inl TypeError, g')
         else (insert_row db m as, g'))"

subsection \<open>Deleting rows\<close>

text \<open>The rows that reference \<open>k\<close> through a relation column with policy \<open>pol\<close>, each with
  the name of the referencing column.\<close>

definition referrers :: "db \<Rightarrow> on_delete \<Rightarrow> key \<Rightarrow> (row \<times> string) list" where
  "referrers db pol k =
     concat (map (\<lambda>r.
       map (\<lambda>f. (r, fname f))
         (filter (\<lambda>f. fk_target f = Some (fst k, pol) \<and> attr r (fname f) = PyKey (snd k))
            (fields_of (row_model r)))) db)"

text \<open>Django's deletion collector: the objects to delete, and the columns to set to
  \<^verbatim>\<open>NULL\<close>.\<close>

record collector =
  data :: "key list"
  field_updates :: "(key \<times> string) list"

text \<open>
  \<^verbatim>\<open>Collector.collect\<close>, with the pending objects on a stack. An object already collected
  is skipped. Otherwise each relation pointing at it is handled by its policy:
  \<^verbatim>\<open>PROTECT\<close> raises when a referrer exists, \<^verbatim>\<open>CASCADE\<close> collects the referrers in turn,
  \<^verbatim>\<open>SET_NULL\<close> records an update of the referring column.
\<close>

function collect :: "db \<Rightarrow> key list \<Rightarrow> collector \<Rightarrow> error + collector" where
  "collect db [] c = Inr c"
| "collect db (k # todo) c =
     (if k \<in> set (data c) \<or> k \<notin> set (map key db) then collect db todo c
      else if referrers db PROTECT k \<noteq> [] then Inl ProtectedError
      else collect db
             (map (\<lambda>(r, n). key r) (referrers db CASCADE k) @ todo)
             (c\<lparr>data := k # data c,
                field_updates := field_updates c
                  @ map (\<lambda>(r, n). (key r, n)) (referrers db SET_NULL k)\<rparr>))"
  by pat_completeness auto

termination
proof (relation "measures [\<lambda>(db, todo, c). length (filter (\<lambda>r. key r \<notin> set (data c)) db),
                            \<lambda>(db, todo, c). length todo]")
  show "wf (measures [\<lambda>(db, todo, c). length (filter (\<lambda>r. key r \<notin> set (data c)) db),
                      \<lambda>(db, todo, c). length todo])"
    by simp
next
  fix db :: db and k :: key and todo :: "key list" and c :: collector
  show "((db, todo, c), (db, k # todo, c))
      \<in> measures [\<lambda>(db, todo, c). length (filter (\<lambda>r. key r \<notin> set (data c)) db),
                   \<lambda>(db, todo, c). length todo]"
    by simp
next
  fix db :: db and k :: key and todo :: "key list" and c :: collector
  assume "\<not> (k \<in> set (data c) \<or> k \<notin> set (map key db))"
  then obtain r where r: "r \<in> set db" "key r = k" "k \<notin> set (data c)"
    by auto
  let ?P = "\<lambda>r. key r \<notin> set (data c)"
  have "filter (\<lambda>r. key r \<notin> set (k # data c)) db = filter (\<lambda>r. key r \<noteq> k) (filter ?P db)"
    by (auto intro: filter_cong)
  moreover have "length (filter (\<lambda>r. key r \<noteq> k) (filter ?P db)) < length (filter ?P db)"
    using r by (intro length_filter_less [of r]) auto
  ultimately show "((db, map (\<lambda>(r, n). key r) (referrers db CASCADE k) @ todo,
         c\<lparr>data := k # data c,
           field_updates := field_updates c
             @ map (\<lambda>(r, n). (key r, n)) (referrers db SET_NULL k)\<rparr>),
        (db, k # todo, c))
      \<in> measures [\<lambda>(db, todo, c). length (filter (\<lambda>r. key r \<notin> set (data c)) db),
                   \<lambda>(db, todo, c). length todo]"
    by simp
qed

text \<open>Applying the recorded updates to a row.\<close>

definition set_null :: "(key \<times> string) list \<Rightarrow> row \<Rightarrow> row" where
  "set_null ups r =
     r\<lparr>attrs := map (\<lambda>(n, v). if (key r, n) \<in> set ups then (n, PyNone) else (n, v)) (attrs r)\<rparr>"

text \<open>\<^verbatim>\<open>instance.delete()\<close>: collect first; if nothing is protected, apply the updates
  and remove the collected rows. On an exception the database is left as it was.\<close>

definition delete :: "db \<Rightarrow> key \<Rightarrow> error + db" where
  "delete db k =
     (case collect db [k] \<lparr>data = [], field_updates = []\<rparr> of
        Inl e \<Rightarrow> Inl e
      | Inr c \<Rightarrow>
          Inr (map (set_null (field_updates c)) (filter (\<lambda>r. key r \<notin> set (data c)) db)))"

subsection \<open>Notions used to state the properties\<close>

definition keys :: "db \<Rightarrow> key set" where
  "keys db = set (map key db)"

text \<open>\<open>refers r m n i\<close>: \<open>r\<close> is a row of table \<open>m\<close> whose column \<open>n\<close> holds the key \<open>i\<close>.\<close>

definition refers :: "row \<Rightarrow> model \<Rightarrow> string \<Rightarrow> nat \<Rightarrow> bool" where
  "refers r m n i = (row_model r = m \<and> attr r n = PyKey i)"

definition cascaded :: "db \<Rightarrow> key \<Rightarrow> key set" where
  "cascaded db k = set (map (\<lambda>(r, n). key r) (referrers db CASCADE k))"

definition nulled :: "db \<Rightarrow> key \<Rightarrow> (key \<times> string) set" where
  "nulled db k = set (map (\<lambda>(r, n). (key r, n)) (referrers db SET_NULL k))"

definition all_models :: "model list" where
  "all_models = [Language, Conference, Room, Talk, Translation, Translator,
                 TranslatorSpeaks, Booth, Shift, ShiftAssignment, User]"

text \<open>Every relation column of the schema: referring table, column, target, policy.\<close>

definition relations :: "(model \<times> string \<times> model \<times> on_delete) list" where
  "relations =
     concat (map (\<lambda>m. concat (map (\<lambda>f.
       case fk_target f of None \<Rightarrow> [] | Some (t, p) \<Rightarrow> [(m, fname f, t, p)]) (fields_of m)))
       all_models)"

text \<open>The rows removed together with Talk \<open>t\<close>: the Talk, its Translations, its Shifts,
  and the ShiftAssignments of those Shifts.\<close>

definition with_talk :: "db \<Rightarrow> nat \<Rightarrow> key set" where
  "with_talk db t =
     {k. k = (Talk, t)
       \<or> (\<exists>r \<in> set db. key r = k \<and> (refers r Translation ''talk'' t \<or> refers r Shift ''talk'' t))
       \<or> (\<exists>a \<in> set db. \<exists>s \<in> set db. key a = k \<and> refers s Shift ''talk'' t
             \<and> refers a ShiftAssignment ''shift'' (pk s))}"

text \<open>The rows removed together with Shift \<open>s\<close>, and together with user \<open>u\<close>.\<close>

definition with_shift :: "db \<Rightarrow> nat \<Rightarrow> key set" where
  "with_shift db s =
     {k. k = (Shift, s) \<or> (\<exists>a \<in> set db. key a = k \<and> refers a ShiftAssignment ''shift'' s)}"

definition with_user :: "db \<Rightarrow> nat \<Rightarrow> key set" where
  "with_user db u =
     {k. k = (User, u)
       \<or> (\<exists>r \<in> set db. key r = k \<and> (refers r Translator ''user'' u
             \<or> refers r TranslatorSpeaks ''user'' u \<or> refers r ShiftAssignment ''user'' u))}"

text \<open>The Rooms and the Talks of a Conference, and a sequence of deletions that stops at
  the first exception.\<close>

definition rooms_of :: "db \<Rightarrow> nat \<Rightarrow> row list" where
  "rooms_of db c = filter (\<lambda>r. refers r Room ''conference'' c) db"

definition talks_of :: "db \<Rightarrow> nat \<Rightarrow> row list" where
  "talks_of db c = filter (\<lambda>r. refers r Talk ''conference'' c) db"

fun delete_all :: "db \<Rightarrow> key list \<Rightarrow> error + db" where
  "delete_all db [] = Inr db"
| "delete_all db (k # ks) =
     (case delete db k of Inl e \<Rightarrow> Inl e | Inr db' \<Rightarrow> delete_all db' ks)"



definition translator_kwargs :: "nat \<Rightarrow> bool \<Rightarrow> (string \<times> pyval) list" where
  "translator_kwargs u b = [(''user'', PyKey u), (''confirmed'', PyBool b)]"

text \<open>A random source that yields the draws \<open>ds\<close> first.\<close>

definition draws :: "nat list \<Rightarrow> rng" where
  "draws ds = (\<lambda>i. if i < length ds then ds ! i else 0)"

subsection \<open>A sample database\<close>

definition lang_en :: row where
  "lang_en = \<lparr>row_model = Language, pk = 1,
     attrs = [(''code'', PyStr ''en''), (''name_en'', PyStr ''English''),
              (''name_self'', PyStr ''English'')]\<rparr>"

definition lang_de :: row where
  "lang_de = \<lparr>row_model = Language, pk = 2,
     attrs = [(''code'', PyStr ''de''), (''name_en'', PyStr ''German''),
              (''name_self'', PyStr ''Deutsch'')]\<rparr>"

definition conf_36c3 :: row where
  "conf_36c3 = \<lparr>row_model = Conference, pk = 1,
     attrs = [(''shortname'', PyStr ''36c3''),
              (''name'', PyStr ''36th Chaos Communication Congress''),
              (''image_url'', PyStr []), (''start'', PyNone), (''end'', PyNone),
              (''fahrplan_version'', PyStr [])]\<rparr>"

definition room_ada :: row where
  "room_ada = \<lparr>row_model = Room, pk = 1,
     attrs = [(''conference'', PyKey 1), (''name'', PyStr ''Hall Ada'')]\<rparr>"

definition user_row :: "nat \<Rightarrow> string \<Rightarrow> string \<Rightarrow> row" where
  "user_row i username email = \<lparr>row_model = User, pk = i,
     attrs = [(''password'', PyStr []), (''last_login'', PyNone),
              (''is_superuser'', PyBool False), (''username'', PyStr username),
              (''first_name'', PyStr []), (''last_name'', PyStr []),
              (''email'', PyStr email), (''is_staff'', PyBool False),
              (''is_active'', PyBool True), (''date_joined'', PyDateTime 0)]\<rparr>"

definition user_alice :: row where
  "user_alice = user_row 1 ''alice'' ''Alice@Example.org''"

definition user_bob :: row where
  "user_bob = user_row 2 ''bob'' ''bob@example.org''"

definition talk_row :: "nat \<Rightarrow> nat \<Rightarrow> string \<Rightarrow> nat \<Rightarrow> nat \<Rightarrow> row" where
  "talk_row i conference fahrplan_id language room = \<lparr>row_model = Talk, pk = i,
     attrs = [(''title'', PyStr ''Opening''), (''subtitle'', PyStr []),
              (''abstract'', PyStr []), (''description'', PyStr []),
              (''conference'', PyKey conference), (''fahrplan_id'', PyStr fahrplan_id),
              (''fahrplan_guid'', PyStr []), (''logo_url'', PyStr []),
              (''talk_type'', PyStr []), (''speakers'', PyStr []),
              (''language'', PyKey language), (''room'', PyKey room),
              (''start'', PyDateTime 0), (''end'', PyDateTime 1)]\<rparr>"

definition talk_1 :: row where
  "talk_1 = talk_row 1 1 ''10001'' 1 1"

definition talk_2 :: row where
  "talk_2 = talk_row 2 1 ''10002'' 1 1"

definition translation_row :: "nat \<Rightarrow> pyval \<Rightarrow> nat \<Rightarrow> nat \<Rightarrow> row" where
  "translation_row i author talk language = \<lparr>row_model = Translation, pk = i,
     attrs = [(''title'', PyStr ''Eroeffnung''), (''subtitle'', PyStr []),
              (''abstract'', PyStr []), (''description'', PyStr []),
              (''author'', author), (''talk'', PyKey talk), (''language'', PyKey language)]\<rparr>"

definition translation_1 :: row where
  "translation_1 = translation_row 1 (PyKey 1) 1 2"

definition translation_2 :: row where
  "translation_2 = translation_row 2 (PyKey 2) 2 2"

definition translator_alice :: row where
  "translator_alice = \<lparr>row_model = Translator, pk = 1,
     attrs = [(''user'', PyKey 1), (''confirmed'', PyBool True), (''bio'', PyStr []),
              (''contact_info'', PyStr []), (''secret_token'', PyStr (replicate 64 CHR ''x''))]\<rparr>"

definition speaks_1 :: row where
  "speaks_1 = \<lparr>row_model = TranslatorSpeaks, pk = 1,
     attrs = [(''user'', PyKey 1), (''language'', PyKey 2)]\<rparr>"

definition booth_1 :: row where
  "booth_1 = \<lparr>row_model = Booth, pk = 1,
     attrs = [(''room'', PyKey 1), (''name'', PyStr ''Hall A booth 1''),
              (''location'', PyStr []), (''dect'', PyStr []),
              (''desired_occupancy'', PyInt 2), (''maximum_occupancy'', PyInt 3)]\<rparr>"

definition shift_row :: "nat \<Rightarrow> nat \<Rightarrow> nat \<Rightarrow> pyval \<Rightarrow> row" where
  "shift_row i booth talk language = \<lparr>row_model = Shift, pk = i,
     attrs = [(''booth'', PyKey booth), (''talk'', PyKey talk), (''language'', language)]\<rparr>"

definition shift_1 :: row where
  "shift_1 = shift_row 1 1 1 (PyKey 2)"

definition shift_2 :: row where
  "shift_2 = shift_row 2 1 1 PyNone"

definition shift_3 :: row where
  "shift_3 = shift_row 3 1 2 (PyKey 2)"

definition assignment_row :: "nat \<Rightarrow> nat \<Rightarrow> nat \<Rightarrow> row" where
  "assignment_row i shift user = \<lparr>row_model = ShiftAssignment, pk = i,
     attrs = [(''shift'', PyKey shift), (''user'', PyKey user), (''waitlisted'', PyBool True),
              (''freeloaded'', PyBool False), (''comment'', PyStr [])]\<rparr>"

definition assignment_1 :: row where
  "assignment_1 = assignment_row 1 1 1"

definition assignment_2 :: row where
  "assignment_2 = assignment_row 2 2 2"

definition assignment_3 :: row where
  "assignment_3 = assignment_row 3 3 2"

definition sample_db :: db where
  "sample_db =
     [lang_en, lang_de, conf_36c3, room_ada, user_alice, user_bob, talk_1, talk_2,
      translation_1, translation_2, translator_alice, speaks_1, booth_1,
      shift_1, shift_2, shift_3, assignment_1, assignment_2, assignment_3]"

text \<open>A conference with one room and nothing else.\<close>

definition venue_db :: db where
  "venue_db = [lang_en, conf_36c3, room_ada]"

text \<open>A database in which a Talk of one conference is held in a room of another.\<close>

definition conf_camp :: row where
  "conf_camp = \<lparr>row_model = Conference, pk = 2,
     attrs = [(''shortname'', PyStr ''camp''), (''name'', PyStr ''Chaos Communication Camp''),
              (''image_url'', PyStr []), (''start'', PyNone), (''end'', PyNone),
              (''fahrplan_version'', PyStr [])]\<rparr>"

definition room_tent :: row where
  "room_tent = \<lparr>row_model = Room, pk = 2,
     attrs = [(''conference'', PyKey 2), (''name'', PyStr ''Tent'')]\<rparr>"

definition talk_stray :: row where
  "talk_stray = talk_row 1 1 ''10001'' 1 2"

definition stray_db :: db where
  "stray_db = [lang_en, conf_36c3, conf_camp, room_ada, room_tent, talk_stray]"

text \<open>Two users, neither of them a translator yet.\<close>

definition users_db :: db where
  "users_db = [user_alice, user_bob]"

lemmas sample_rows =
  lang_en_def lang_de_def conf_36c3_def room_ada_def user_alice_def user_bob_def user_row_def
  talk_1_def talk_2_def talk_row_def translation_1_def translation_2_def translation_row_def
  translator_alice_def speaks_1_def booth_1_def shift_1_def shift_2_def shift_3_def
  shift_row_def assignment_1_def assignment_2_def assignment_3_def assignment_row_def

section \<open>Properties of the computed attributes\<close>

lemma lookup_field_simps:
  "lookup_field Shift ''language'' =
     Some (Field ''language'' (ForeignKey Language PROTECT) True NOT_PROVIDED)"
  "lookup_field Talk ''conference'' =
     Some (Field ''conference'' (ForeignKey Conference PROTECT) False NOT_PROVIDED)"
  "lookup_field Translator ''user'' =
     Some (Field ''user'' (OneToOneField User CASCADE) False NOT_PROVIDED)"
  "lookup_field User ''email'' = Some (Field ''email'' (CharField 254) False NOT_PROVIDED)"
  "lookup_field Conference ''acronym'' = None"
  "lookup_field Talk ''name'' = None"
  "lookup_field Talk ''guid'' = None"
  by (simp_all add: lookup_field_def TalkBaseModel_def)

lemma find_row_sample:
  "find_row sample_db (Language, 2) = Some lang_de"
  "find_row sample_db (Conference, 1) = Some conf_36c3"
  "find_row sample_db (User, 1) = Some user_alice"
  "find_row sample_db (Conference, Suc 0) = Some conf_36c3"
  "find_row sample_db (User, Suc 0) = Some user_alice"
  by (simp_all add: find_row_def sample_db_def key_def sample_rows)

text \<open>
  Claim C1. For every Shift, \<^verbatim>\<open>language_or_any\<close> returns the string \<^verbatim>\<open>'*'\<close> when the
  \<^verbatim>\<open>language\<close> column is empty, and the Language the column refers to when it is set.
\<close>

theorem language_or_any_spec:
  "row_model self = Shift \<Longrightarrow>
     (attr self ''language'' = PyNone \<longrightarrow> language_or_any db self = Inr (Val (PyStr ''*'')))
   \<and> (\<forall>i l. attr self ''language'' = PyKey i \<and> find_row db (Language, i) = Some l
         \<longrightarrow> language_or_any db self = Inr (Instance l))"
  by (simp add: language_or_any_def getattr_def bind_def lookup_field_simps fk_target_def)

theorem language_or_any_spec_witness:
  "row_model shift_1 = Shift \<and> row_model shift_2 = Shift
   \<and> attr shift_2 ''language'' = PyNone
   \<and> attr shift_1 ''language'' = PyKey 2 \<and> find_row sample_db (Language, 2) = Some lang_de
   \<and> language_or_any sample_db shift_2 = Inr (Val (PyStr ''*''))
   \<and> language_or_any sample_db shift_1 = Inr (Instance lang_de)"
proof -
  have m: "row_model shift_1 = Shift" "row_model shift_2 = Shift"
    by (simp_all add: shift_1_def shift_2_def shift_row_def)
  have a: "attr shift_2 ''language'' = PyNone" "attr shift_1 ''language'' = PyKey 2"
    by (simp_all add: shift_1_def shift_2_def shift_row_def attr_def)
  show ?thesis
    using language_or_any_spec [OF m(1), of sample_db] language_or_any_spec [OF m(2), of sample_db]
      m a find_row_sample(1)
    by simp
qed

lemma getattr_Conference_acronym:
  "row_model r = Conference \<Longrightarrow> getattr db r ''acronym'' = Inl AttributeError"
  by (simp add: getattr_def lookup_field_simps)

lemma getattr_Talk_conference:
  "row_model self = Talk \<Longrightarrow>
     getattr db self ''conference'' = Inl RelatedObjectDoesNotExist
   \<or> getattr db self ''conference'' = Inl DoesNotExist
   \<or> (\<exists>r. getattr db self ''conference'' = Inr (Instance r) \<and> row_model r = Conference)"
  by (auto simp: getattr_def lookup_field_simps fk_target_def find_row_def key_def
      split: pyval.splits option.splits dest!: find_Some_iff [THEN iffD1])

text \<open>
  Claim C7. For every Talk, \<^verbatim>\<open>slug\<close>, \<^verbatim>\<open>watch_url\<close> and \<^verbatim>\<open>slides_url\<close> never return a
  value. \<^verbatim>\<open>slides_url\<close> raises \<^verbatim>\<open>AttributeError\<close>. \<^verbatim>\<open>slug\<close> and \<^verbatim>\<open>watch_url\<close> raise
  \<^verbatim>\<open>AttributeError\<close> once the Talk's conference is loaded, and an exception of class
  \<^verbatim>\<open>AttributeError\<close> unless the conference row is missing from the database. The names
  they use are undefined: \<^verbatim>\<open>Conference\<close> has no \<^verbatim>\<open>acronym\<close>, \<^verbatim>\<open>Talk\<close> has no \<^verbatim>\<open>name\<close> and no
  \<^verbatim>\<open>guid\<close>, and the module binds no \<^verbatim>\<open>parametrize\<close>.
\<close>

theorem talk_urls_raise:
  "row_model self = Talk \<Longrightarrow>
     (\<exists>e. slug str call db self = Inl e \<and> watch_url str call db self = Inl e
        \<and> (getattr db self ''conference'' \<noteq> Inl DoesNotExist \<longrightarrow> is_AttributeError e))
   \<and> (\<forall>c. getattr db self ''conference'' = Inr c \<longrightarrow>
         slug str call db self = Inl AttributeError
       \<and> watch_url str call db self = Inl AttributeError)
   \<and> slides_url str db self = Inl AttributeError
   \<and> lookup_field Conference ''acronym'' = None
   \<and> load_global ''parametrize'' = Inl NameError
   \<and> lookup_field Talk ''name'' = None
   \<and> lookup_field Talk ''guid'' = None"
proof -
  assume m: "row_model self = Talk"
  have s: "slides_url str db self = Inl AttributeError"
    using m by (simp add: slides_url_def getattr_def lookup_field_simps bind_def)
  have g: "load_global ''parametrize'' = Inl NameError"
    by (simp add: load_global_def module_names_def)
  from getattr_Talk_conference [OF m, of db]
  consider "getattr db self ''conference'' = Inl RelatedObjectDoesNotExist"
    | "getattr db self ''conference'' = Inl DoesNotExist"
    | r where "getattr db self ''conference'' = Inr (Instance r)" "row_model r = Conference"
    by blast
  then show ?thesis
  proof cases
    case 1
    then show ?thesis
      using s g by (simp add: slug_def watch_url_def bind_def lookup_field_simps)
  next
    case 2
    then show ?thesis
      using s g by (simp add: slug_def watch_url_def bind_def lookup_field_simps)
  next
    case 3
    then show ?thesis
      using s g
      by (simp add: slug_def watch_url_def bind_def lookup_field_simps getattr_obj_def
          getattr_Conference_acronym)
  qed
qed

theorem talk_urls_raise_witness:
  "row_model talk_1 = Talk
   \<and> getattr sample_db talk_1 ''conference'' = Inr (Instance conf_36c3)
   \<and> slug (\<lambda>v. []) (\<lambda>f v. Inr v) sample_db talk_1 = Inl AttributeError
   \<and> watch_url (\<lambda>v. []) (\<lambda>f v. Inr v) sample_db talk_1 = Inl AttributeError
   \<and> slides_url (\<lambda>v. []) sample_db talk_1 = Inl AttributeError"
proof -
  have m: "row_model talk_1 = Talk"
    by (simp add: talk_1_def talk_row_def)
  have c: "getattr sample_db talk_1 ''conference'' = Inr (Instance conf_36c3)"
    by (simp add: getattr_def lookup_field_simps fk_target_def find_row_sample attr_def
        talk_1_def talk_row_def)
  show ?thesis
    using talk_urls_raise [OF m, of "\<lambda>v. []" "\<lambda>f v. Inr v" sample_db] m c by simp
qed

text \<open>
  Claim C8 says that \<^verbatim>\<open>avatar_url\<close> returns the Gravatar URL of the lowercased email.
  The code passes the lowercased \<^verbatim>\<open>str\<close> to \<^verbatim>\<open>hashlib.md5\<close> without encoding it, so the
  call raises \<^verbatim>\<open>TypeError\<close>: for the Translator of the sample database, whose user has the
  email \<^verbatim>\<open>Alice@Example.org\<close>, no URL is returned.
\<close>

theorem avatar_url_raises_TypeError:
  "avatar_url str hexdigest sample_db translator_alice = Inl TypeError"
  by (simp add: avatar_url_def getattr_def getattr_obj_def lookup_field_simps fk_target_def
      find_row_sample attr_def translator_alice_def user_alice_def user_row_def bind_def
      str_lower_def hashlib_md5_def)

section \<open>The deletion collector\<close>

lemma in_referrers:
  "(r, n) \<in> set (referrers db pol k) \<longleftrightarrow>
     r \<in> set db \<and> (\<exists>f \<in> set (fields_of (row_model r)).
        n = fname f \<and> fk_target f = Some (fst k, pol) \<and> attr r n = PyKey (snd k))"
  by (auto simp: referrers_def)

lemma cascaded_keys: "cascaded db k \<subseteq> keys db"
  by (auto simp: cascaded_def keys_def in_referrers)

lemma collect_mono:
  "collect db todo c = Inr c' \<Longrightarrow> set (data c) \<subseteq> set (data c')"
proof (induction db todo c rule: collect.induct)
  case (1 db c)
  then show ?case by simp
next
  case (2 db k todo c)
  then show ?case
    by (auto split: if_splits)
qed

lemma collect_within:
  "\<forall>k \<in> S. cascaded db k \<subseteq> S \<Longrightarrow> set todo \<inter> keys db \<subseteq> S \<Longrightarrow> set (data c) \<subseteq> S \<Longrightarrow>
   collect db todo c = Inr c' \<Longrightarrow> set (data c') \<subseteq> S"
proof (induction db todo c rule: collect.induct)
  case (1 db c)
  then show ?case by simp
next
  case (2 db k todo c)
  show ?case
  proof (cases "k \<in> set (data c) \<or> k \<notin> set (map key db)")
    case True
    have t: "set todo \<inter> keys db \<subseteq> S" using "2.prems"(2) by auto
    from True "2.prems"(4) have run: "collect db todo c = Inr c'" by simp
    from "2.IH"(1) [OF True "2.prems"(1) t "2.prems"(3) run] show ?thesis .
  next
    case False
    then have kS: "k \<in> S" using "2.prems"(2) by (auto simp: keys_def)
    from False "2.prems"(4) have np: "\<not> referrers db PROTECT k \<noteq> []"
      by (auto split: if_splits)
    have cS: "cascaded db k \<subseteq> S" using kS "2.prems"(1) by blast
    show ?thesis
    proof (rule "2.IH"(2) [OF False np "2.prems"(1)])
      show "set (map (\<lambda>(r, n). key r) (referrers db CASCADE k) @ todo) \<inter> keys db \<subseteq> S"
        using cS "2.prems"(2) by (auto simp: cascaded_def)
      show "set (data (c\<lparr>data := k # data c,
          field_updates := field_updates c @ map (\<lambda>(r, n). (key r, n)) (referrers db SET_NULL k)\<rparr>)) \<subseteq> S"
        using kS "2.prems"(3) by simp
      show "collect db (map (\<lambda>(r, n). key r) (referrers db CASCADE k) @ todo)
         (c\<lparr>data := k # data c,
          field_updates := field_updates c @ map (\<lambda>(r, n). (key r, n)) (referrers db SET_NULL k)\<rparr>) = Inr c'"
        using False np "2.prems"(4) by simp
    qed
  qed
qed

lemma collect_closed:
  "\<forall>k \<in> set (data c). cascaded db k \<subseteq> set (data c) \<union> set todo \<Longrightarrow>
   collect db todo c = Inr c' \<Longrightarrow>
   set todo \<inter> keys db \<subseteq> set (data c') \<and> (\<forall>k \<in> set (data c'). cascaded db k \<subseteq> set (data c'))"
proof (induction db todo c rule: collect.induct)
  case (1 db c)
  then show ?case by simp
next
  case (2 db k todo c)
  show ?case
  proof (cases "k \<in> set (data c) \<or> k \<notin> set (map key db)")
    case True
    have inv: "\<forall>k' \<in> set (data c). cascaded db k' \<subseteq> set (data c) \<union> set todo"
    proof
      fix k' assume k': "k' \<in> set (data c)"
      then have "cascaded db k' \<subseteq> set (data c) \<union> set (k # todo)" using "2.prems"(1) by blast
      moreover have "k \<in> cascaded db k' \<Longrightarrow> k \<in> set (data c)"
        using True cascaded_keys [of db k'] by (auto simp: keys_def)
      ultimately show "cascaded db k' \<subseteq> set (data c) \<union> set todo" by auto
    qed
    from True "2.prems"(2) have run: "collect db todo c = Inr c'" by simp
    from "2.IH"(1) [OF True inv run] collect_mono [OF run] True
    show ?thesis by (auto simp: keys_def)
  next
    case False
    from False "2.prems"(2) have np: "\<not> referrers db PROTECT k \<noteq> []"
      by (auto split: if_splits)
    let ?c = "c\<lparr>data := k # data c,
          field_updates := field_updates c @ map (\<lambda>(r, n). (key r, n)) (referrers db SET_NULL k)\<rparr>"
    let ?todo = "map (\<lambda>(r, n). key r) (referrers db CASCADE k) @ todo"
    have run: "collect db ?todo ?c = Inr c'"
      using False np "2.prems"(2) by simp
    have inv: "\<forall>k' \<in> set (data ?c). cascaded db k' \<subseteq> set (data ?c) \<union> set ?todo"
    proof
      fix k' assume "k' \<in> set (data ?c)"
      then consider "k' = k" | "k' \<in> set (data c)" by auto
      then show "cascaded db k' \<subseteq> set (data ?c) \<union> set ?todo"
      proof cases
        case 1
        then show ?thesis by (auto simp: cascaded_def)
      next
        case 2
        then have "cascaded db k' \<subseteq> set (data c) \<union> set (k # todo)"
          using "2.prems"(1) by blast
        then show ?thesis by auto
      qed
    qed
    from "2.IH"(2) [OF False np inv run] collect_mono [OF run]
    show ?thesis by auto
  qed
qed

lemma collect_succeeds:
  "\<forall>k \<in> S. cascaded db k \<subseteq> S \<Longrightarrow> set todo \<inter> keys db \<subseteq> S \<Longrightarrow>
   \<forall>k \<in> S. referrers db PROTECT k = [] \<Longrightarrow> \<exists>c'. collect db todo c = Inr c'"
proof (induction db todo c rule: collect.induct)
  case (1 db c)
  then show ?case by simp
next
  case (2 db k todo c)
  show ?case
  proof (cases "k \<in> set (data c) \<or> k \<notin> set (map key db)")
    case True
    have t: "set todo \<inter> keys db \<subseteq> S" using "2.prems"(2) by auto
    from "2.IH"(1) [OF True "2.prems"(1) t "2.prems"(3)] True show ?thesis by simp
  next
    case False
    then have kS: "k \<in> S" using "2.prems"(2) by (auto simp: keys_def)
    then have np: "\<not> referrers db PROTECT k \<noteq> []" using "2.prems"(3) by simp
    have cS: "cascaded db k \<subseteq> S" using kS "2.prems"(1) by blast
    have "set (map (\<lambda>(r, n). key r) (referrers db CASCADE k) @ todo) \<inter> keys db \<subseteq> S"
      using cS "2.prems"(2) by (auto simp: cascaded_def)
    from "2.IH"(2) [OF False np "2.prems"(1) this "2.prems"(3)] False np
    show ?thesis by simp
  qed
qed

lemma collect_updates:
  "collect db todo c = Inr c' \<Longrightarrow>
   set (field_updates c') = set (field_updates c) \<union> (\<Union>k \<in> set (data c') - set (data c). nulled db k)"
proof (induction db todo c rule: collect.induct)
  case (1 db c)
  then show ?case by simp
next
  case (2 db k todo c)
  show ?case
  proof (cases "k \<in> set (data c) \<or> k \<notin> set (map key db)")
    case True
    with 2 show ?thesis by auto
  next
    case False
    from False "2.prems" have np: "\<not> referrers db PROTECT k \<noteq> []"
      by (auto split: if_splits)
    let ?c = "c\<lparr>data := k # data c,
          field_updates := field_updates c @ map (\<lambda>(r, n). (key r, n)) (referrers db SET_NULL k)\<rparr>"
    let ?todo = "map (\<lambda>(r, n). key r) (referrers db CASCADE k) @ todo"
    have run: "collect db ?todo ?c = Inr c'"
      using False np "2.prems" by simp
    have k: "k \<in> set (data c')" using collect_mono [OF run] by auto
    have "set (data c') - set (data c) = insert k (set (data c') - set (data ?c))"
      using k False by auto
    with "2.IH"(2) [OF False np run]
    show ?thesis by (auto simp: nulled_def)
  qed
qed

lemma relations_eq:
  "relations =
    [(Room, ''conference'', Conference, PROTECT),
     (Talk, ''conference'', Conference, PROTECT),
     (Talk, ''language'', Language, PROTECT),
     (Talk, ''room'', Room, PROTECT),
     (Translation, ''author'', User, SET_NULL),
     (Translation, ''talk'', Talk, CASCADE),
     (Translation, ''language'', Language, PROTECT),
     (Translator, ''user'', User, CASCADE),
     (TranslatorSpeaks, ''user'', User, CASCADE),
     (TranslatorSpeaks, ''language'', Language, PROTECT),
     (Booth, ''room'', Room, PROTECT),
     (Shift, ''booth'', Booth, PROTECT),
     (Shift, ''talk'', Talk, CASCADE),
     (Shift, ''language'', Language, PROTECT),
     (ShiftAssignment, ''shift'', Shift, CASCADE),
     (ShiftAssignment, ''user'', User, CASCADE)]"
  by (simp add: relations_def all_models_def fk_target_def TalkBaseModel_def)

lemma all_models_complete: "m \<in> set all_models"
  by (cases m) (simp_all add: all_models_def)

lemma in_relations:
  "(m, n, t, p) \<in> set relations \<longleftrightarrow>
     (\<exists>f \<in> set (fields_of m). n = fname f \<and> fk_target f = Some (t, p))"
proof -
  have el: "(m, n, t, p) \<in> set (case fk_target f of None \<Rightarrow> []
              | Some (t, p) \<Rightarrow> [(m', fname f, t, p)])
      \<longleftrightarrow> m = m' \<and> n = fname f \<and> fk_target f = Some (t, p)" for f m'
    by (auto split: option.splits)
  have "(m, n, t, p) \<in> set relations \<longleftrightarrow>
      (\<exists>m' \<in> set all_models. \<exists>f \<in> set (fields_of m').
         (m, n, t, p) \<in> set (case fk_target f of None \<Rightarrow> [] | Some (t, p) \<Rightarrow> [(m', fname f, t, p)]))"
    by (simp add: relations_def)
  also have "\<dots> \<longleftrightarrow> (\<exists>f \<in> set (fields_of m). n = fname f \<and> fk_target f = Some (t, p))"
    unfolding el using all_models_complete [of m] by blast
  finally show ?thesis .
qed

lemma in_referrers_rel:
  "(r, n) \<in> set (referrers db pol k) \<longleftrightarrow>
     r \<in> set db \<and> (row_model r, n, fst k, pol) \<in> set relations \<and> attr r n = PyKey (snd k)"
  by (auto simp: in_referrers in_relations)

lemma cascaded_iff:
  "k' \<in> cascaded db k \<longleftrightarrow>
     (\<exists>r n. r \<in> set db \<and> key r = k' \<and> (row_model r, n, fst k, CASCADE) \<in> set relations
        \<and> attr r n = PyKey (snd k))"
  by (force simp: cascaded_def in_referrers_rel)

lemma nulled_iff:
  "(k', n) \<in> nulled db k \<longleftrightarrow>
     (\<exists>r. r \<in> set db \<and> key r = k' \<and> (row_model r, n, fst k, SET_NULL) \<in> set relations
        \<and> attr r n = PyKey (snd k))"
  by (force simp: nulled_def in_referrers_rel)

lemma protect_iff:
  "referrers db PROTECT k \<noteq> [] \<longleftrightarrow>
     (\<exists>r n. r \<in> set db \<and> (row_model r, n, fst k, PROTECT) \<in> set relations
        \<and> attr r n = PyKey (snd k))"
proof -
  have "referrers db PROTECT k \<noteq> [] \<longleftrightarrow> (\<exists>x. x \<in> set (referrers db PROTECT k))"
    by (cases "referrers db PROTECT k") auto
  then show ?thesis by (auto simp: in_referrers_rel)
qed

lemma cascaded_Talk:
  "k \<in> cascaded db (Talk, t) \<longleftrightarrow>
     (\<exists>r \<in> set db. key r = k \<and> (refers r Translation ''talk'' t \<or> refers r Shift ''talk'' t))"
  by (auto simp: cascaded_iff relations_eq refers_def)

lemma cascaded_Shift:
  "k \<in> cascaded db (Shift, s) \<longleftrightarrow>
     (\<exists>r \<in> set db. key r = k \<and> refers r ShiftAssignment ''shift'' s)"
  by (auto simp: cascaded_iff relations_eq refers_def)

lemma cascaded_User:
  "k \<in> cascaded db (User, u) \<longleftrightarrow>
     (\<exists>r \<in> set db. key r = k \<and> (refers r Translator ''user'' u
        \<or> refers r TranslatorSpeaks ''user'' u \<or> refers r ShiftAssignment ''user'' u))"
  by (auto simp: cascaded_iff relations_eq refers_def)

lemma cascaded_none:
  "m \<notin> {Talk, Shift, User} \<Longrightarrow> cascaded db (m, i) = {}"
  by (auto simp: cascaded_iff relations_eq)

lemma nulled_User:
  "(k, n) \<in> nulled db (User, u) \<longleftrightarrow>
     n = ''author'' \<and> (\<exists>r \<in> set db. key r = k \<and> refers r Translation ''author'' u)"
  by (auto simp: nulled_iff relations_eq refers_def)

lemma nulled_none: "m \<noteq> User \<Longrightarrow> nulled db (m, i) = {}"
  by (auto simp: nulled_iff relations_eq)

lemma protect_none:
  "m \<notin> {Conference, Language, Room, Booth} \<Longrightarrow> referrers db PROTECT (m, i) = []"
  using protect_iff [of db "(m, i)"] by (auto simp: relations_eq)

lemma protect_Conference:
  "referrers db PROTECT (Conference, c) \<noteq> [] \<longleftrightarrow>
     (\<exists>r \<in> set db. refers r Room ''conference'' c \<or> refers r Talk ''conference'' c)"
  by (auto simp: protect_iff relations_eq refers_def)

lemma protect_Room:
  "referrers db PROTECT (Room, i) \<noteq> [] \<longleftrightarrow>
     (\<exists>r \<in> set db. refers r Talk ''room'' i \<or> refers r Booth ''room'' i)"
  by (auto simp: protect_iff relations_eq refers_def)

lemma set_null_Nil: "set_null [] r = r"
  by (simp add: set_null_def)

lemma map_set_null_Nil: "map (set_null []) rs = rs"
  by (simp add: set_null_Nil map_idI)

lemma collect_exact:
  assumes kdb: "k \<in> keys db" and kS: "k \<in> S"
    and closed: "\<forall>k' \<in> S. cascaded db k' \<subseteq> S"
    and minimal: "\<And>T. k \<in> T \<Longrightarrow> \<forall>k' \<in> T. cascaded db k' \<subseteq> T \<Longrightarrow> S \<subseteq> T"
    and noprot: "\<forall>k' \<in> S. referrers db PROTECT k' = []"
  shows "\<exists>c'. collect db [k] \<lparr>data = [], field_updates = []\<rparr> = Inr c' \<and> set (data c') = S
    \<and> set (field_updates c') = (\<Union>k' \<in> S. nulled db k')"
proof -
  let ?c = "\<lparr>data = [], field_updates = []\<rparr>"
  have todo: "set [k] \<inter> keys db \<subseteq> S" using kS by auto
  from collect_succeeds [OF closed todo noprot, of ?c]
  obtain c' where run: "collect db [k] ?c = Inr c'" by blast
  have sub: "set (data c') \<subseteq> S"
    using collect_within [OF closed todo _ run] by simp
  have "set [k] \<inter> keys db \<subseteq> set (data c') \<and> (\<forall>k \<in> set (data c'). cascaded db k \<subseteq> set (data c'))"
    using collect_closed [OF _ run] by simp
  then have "S \<subseteq> set (data c')"
    using minimal [of "set (data c')"] kdb by auto
  with sub have eq: "set (data c') = S" by blast
  from collect_updates [OF run] eq
  have "set (field_updates c') = (\<Union>k' \<in> S. nulled db k')" by simp
  with run eq show ?thesis by blast
qed

lemma delete_exact:
  assumes kdb: "k \<in> keys db" and kS: "k \<in> S"
    and closed: "\<forall>k' \<in> S. cascaded db k' \<subseteq> S"
    and minimal: "\<And>T. k \<in> T \<Longrightarrow> \<forall>k' \<in> T. cascaded db k' \<subseteq> T \<Longrightarrow> S \<subseteq> T"
    and noprot: "\<forall>k' \<in> S. referrers db PROTECT k' = []"
  shows "\<exists>ups. set ups = (\<Union>k' \<in> S. nulled db k')
    \<and> delete db k = Inr (map (set_null ups) (filter (\<lambda>r. key r \<notin> S) db))"
proof -
  from collect_exact [OF assms]
  obtain c' where c': "collect db [k] \<lparr>data = [], field_updates = []\<rparr> = Inr c'"
    "set (data c') = S" "set (field_updates c') = (\<Union>k' \<in> S. nulled db k')" by blast
  then have "delete db k = Inr (map (set_null (field_updates c')) (filter (\<lambda>r. key r \<notin> S) db))"
    by (simp add: delete_def)
  with c'(3) show ?thesis by blast
qed

lemma delete_exact_plain:
  assumes kdb: "k \<in> keys db" and kS: "k \<in> S"
    and closed: "\<forall>k' \<in> S. cascaded db k' \<subseteq> S"
    and minimal: "\<And>T. k \<in> T \<Longrightarrow> \<forall>k' \<in> T. cascaded db k' \<subseteq> T \<Longrightarrow> S \<subseteq> T"
    and noprot: "\<forall>k' \<in> S. referrers db PROTECT k' = []"
    and nonull: "\<forall>k' \<in> S. nulled db k' = {}"
  shows "delete db k = Inr (filter (\<lambda>r. key r \<notin> S) db)"
proof -
  from delete_exact [OF assms(1-5)] nonull
  obtain ups where "set ups = {}"
    "delete db k = Inr (map (set_null ups) (filter (\<lambda>r. key r \<notin> S) db))" by auto
  then show ?thesis by (simp add: map_set_null_Nil)
qed

lemma delete_absent: "k \<notin> keys db \<Longrightarrow> delete db k = Inr db"
  by (simp add: delete_def keys_def map_set_null_Nil)

lemma delete_protected:
  "k \<in> keys db \<Longrightarrow> referrers db PROTECT k \<noteq> [] \<Longrightarrow> delete db k = Inl ProtectedError"
  by (simp add: delete_def keys_def)

lemma key_model: "key r = (m, i) \<longleftrightarrow> row_model r = m \<and> pk r = i"
  by (auto simp: key_def)

lemma with_talk_closed: "\<forall>k \<in> with_talk db t. cascaded db k \<subseteq> with_talk db t"
proof
  fix k assume "k \<in> with_talk db t"
  then consider "k = (Talk, t)"
    | r where "r \<in> set db" "key r = k" "refers r Translation ''talk'' t"
    | r where "r \<in> set db" "key r = k" "refers r Shift ''talk'' t"
    | a where "a \<in> set db" "key a = k" "row_model a = ShiftAssignment"
    by (auto simp: with_talk_def refers_def)
  then show "cascaded db k \<subseteq> with_talk db t"
  proof cases
    case 1
    then show ?thesis by (auto simp: cascaded_Talk with_talk_def)
  next
    case 2
    then have "k = (Translation, pk r)" by (auto simp: key_def refers_def)
    then show ?thesis by (simp add: cascaded_none)
  next
    case 3
    then have "k = (Shift, pk r)" by (auto simp: key_def refers_def)
    with 3 show ?thesis by (auto simp: cascaded_Shift with_talk_def)
  next
    case 4
    then have "k = (ShiftAssignment, pk a)" by (auto simp: key_def)
    then show ?thesis by (simp add: cascaded_none)
  qed
qed

lemma with_talk_minimal:
  assumes "(Talk, t) \<in> T" and "\<forall>k \<in> T. cascaded db k \<subseteq> T"
  shows "with_talk db t \<subseteq> T"
proof
  fix k assume "k \<in> with_talk db t"
  then consider "k = (Talk, t)"
    | r where "r \<in> set db" "key r = k" "refers r Translation ''talk'' t \<or> refers r Shift ''talk'' t"
    | a s where "a \<in> set db" "s \<in> set db" "key a = k" "refers s Shift ''talk'' t"
        "refers a ShiftAssignment ''shift'' (pk s)"
    by (auto simp: with_talk_def)
  then show "k \<in> T"
  proof cases
    case 1
    then show ?thesis using assms(1) by simp
  next
    case 2
    then have "k \<in> cascaded db (Talk, t)" by (auto simp: cascaded_Talk)
    then show ?thesis using assms by blast
  next
    case 3
    then have "key s \<in> cascaded db (Talk, t)" by (auto simp: cascaded_Talk)
    then have "key s \<in> T" using assms by blast
    moreover have "key s = (Shift, pk s)" using 3 by (simp add: key_def refers_def)
    moreover have "k \<in> cascaded db (Shift, pk s)" using 3 by (auto simp: cascaded_Shift)
    ultimately show ?thesis using assms(2) by auto
  qed
qed

lemma with_talk_models:
  "k \<in> with_talk db t \<Longrightarrow> fst k \<in> {Talk, Translation, Shift, ShiftAssignment}"
  by (auto simp: with_talk_def refers_def key_def)

lemma delete_Talk:
  assumes "(Talk, t) \<in> keys db"
  shows "delete db (Talk, t) = Inr (filter (\<lambda>r. key r \<notin> with_talk db t) db)"
proof (rule delete_exact_plain [OF assms _ with_talk_closed])
  show "(Talk, t) \<in> with_talk db t" by (simp add: with_talk_def)
  show "\<And>T. (Talk, t) \<in> T \<Longrightarrow> \<forall>k' \<in> T. cascaded db k' \<subseteq> T \<Longrightarrow> with_talk db t \<subseteq> T"
    by (rule with_talk_minimal)
  show "\<forall>k' \<in> with_talk db t. referrers db PROTECT k' = []"
  proof
    fix k' assume "k' \<in> with_talk db t"
    from with_talk_models [OF this] show "referrers db PROTECT k' = []"
      by (cases k') (auto simp: protect_none)
  qed
  show "\<forall>k' \<in> with_talk db t. nulled db k' = {}"
  proof
    fix k' assume "k' \<in> with_talk db t"
    from with_talk_models [OF this] show "nulled db k' = {}"
      by (cases k') (auto simp: nulled_none)
  qed
qed

section \<open>Cascading deletion\<close>



lemma sample_keys:
  "map key sample_db =
     [(Language, 1), (Language, 2), (Conference, 1), (Room, 1), (User, 1), (User, 2),
      (Talk, 1), (Talk, 2), (Translation, 1), (Translation, 2), (Translator, 1),
      (TranslatorSpeaks, 1), (Booth, 1), (Shift, 1), (Shift, 2), (Shift, 3),
      (ShiftAssignment, 1), (ShiftAssignment, 2), (ShiftAssignment, 3)]"
  by (simp add: sample_db_def key_def sample_rows)

lemma sample_members:
  "lang_en \<in> set sample_db" "talk_1 \<in> set sample_db" "talk_2 \<in> set sample_db"
  "translation_1 \<in> set sample_db" "translation_2 \<in> set sample_db"
  "shift_1 \<in> set sample_db" "shift_2 \<in> set sample_db" "shift_3 \<in> set sample_db"
  "assignment_1 \<in> set sample_db" "assignment_2 \<in> set sample_db"
  "assignment_3 \<in> set sample_db" "translator_alice \<in> set sample_db"
  by (simp_all add: sample_db_def)

lemma sample_refers:
  "refers translation_1 Translation ''talk'' 1"
  "refers translation_1 Translation ''author'' 1"
  "refers shift_1 Shift ''talk'' 1"
  "refers shift_2 Shift ''talk'' 1"
  "refers assignment_1 ShiftAssignment ''shift'' (pk shift_1)"
  "refers assignment_1 ShiftAssignment ''shift'' 1"
  "refers assignment_1 ShiftAssignment ''user'' 1"
  "refers assignment_2 ShiftAssignment ''shift'' (pk shift_2)"
  by (simp_all add: refers_def attr_def sample_rows)



text \<open>
  Claim C10. Deleting an existing Talk also removes every ShiftAssignment whose Shift
  references that Talk, and afterwards no remaining ShiftAssignment references a Shift
  that the deletion removed.
\<close>

theorem Talk_deletion_reaches_assignments:
  assumes "(Talk, t) \<in> set (map key db)"
  shows "\<exists>db'. delete db (Talk, t) = Inr db'
     \<and> (\<forall>a \<in> set db. \<forall>s \<in> set db.
           refers s Shift ''talk'' t \<and> refers a ShiftAssignment ''shift'' (pk s)
           \<longrightarrow> key a \<notin> set (map key db'))
     \<and> (\<forall>a \<in> set db'. \<forall>s. refers a ShiftAssignment ''shift'' s \<and> (Shift, s) \<in> set (map key db)
           \<longrightarrow> (Shift, s) \<in> set (map key db'))"
proof -
  let ?db' = "filter (\<lambda>r. key r \<notin> with_talk db t) db"
  have d: "delete db (Talk, t) = Inr ?db'"
    using assms(1) by (simp add: delete_Talk keys_def)
  have 1: "\<forall>a \<in> set db. \<forall>s \<in> set db.
           refers s Shift ''talk'' t \<and> refers a ShiftAssignment ''shift'' (pk s)
           \<longrightarrow> key a \<notin> set (map key ?db')"
    by (auto simp: with_talk_def)
  have 2: "(Shift, s) \<in> set (map key ?db')"
    if a: "a \<in> set ?db'" "refers a ShiftAssignment ''shift'' s"
      and s: "(Shift, s) \<in> set (map key db)" for a s
  proof -
    have "(Shift, s) \<notin> with_talk db t"
    proof
      assume "(Shift, s) \<in> with_talk db t"
      then obtain r where r: "r \<in> set db" "key r = (Shift, s)" "refers r Shift ''talk'' t"
        by (auto simp: with_talk_def refers_def key_def)
      then have "pk r = s" by (simp add: key_def)
      with r a have "key a \<in> with_talk db t"
        by (auto simp: with_talk_def)
      with a show False by simp
    qed
    with s show ?thesis by auto
  qed
  from d 1 2 show ?thesis by blast
qed

theorem Talk_deletion_reaches_assignments_witness:
  "(Talk, 1) \<in> set (map key sample_db)
   \<and> refers shift_1 Shift ''talk'' 1 \<and> refers assignment_1 ShiftAssignment ''shift'' (pk shift_1)
   \<and> (\<exists>db'. delete sample_db (Talk, 1) = Inr db' \<and> key assignment_1 \<notin> set (map key db'))"
proof -
  have k: "(Talk, 1) \<in> set (map key sample_db)"
    by (simp add: sample_keys)
  from Talk_deletion_reaches_assignments [OF k] obtain db' where
    del: "delete sample_db (Talk, 1) = Inr db'"
    and gone: "\<forall>a \<in> set sample_db. \<forall>s \<in> set sample_db.
           refers s Shift ''talk'' 1 \<and> refers a ShiftAssignment ''shift'' (pk s)
           \<longrightarrow> key a \<notin> set (map key db')"
    by blast
  from gone sample_members(6,9) sample_refers(3,5)
  have "key assignment_1 \<notin> set (map key db')" by blast
  with k del sample_refers(3,5) show ?thesis by blast
qed

lemma delete_Shift:
  assumes "(Shift, s) \<in> keys db"
  shows "delete db (Shift, s) = Inr (filter (\<lambda>r. key r \<notin> with_shift db s) db)"
proof (rule delete_exact_plain [OF assms])
  show "(Shift, s) \<in> with_shift db s" by (simp add: with_shift_def)
  have models: "fst k \<in> {Shift, ShiftAssignment}" if "k \<in> with_shift db s" for k
    using that by (auto simp: with_shift_def refers_def key_def)
  show "\<forall>k' \<in> with_shift db s. cascaded db k' \<subseteq> with_shift db s"
  proof
    fix k' assume k': "k' \<in> with_shift db s"
    then consider "k' = (Shift, s)" | "fst k' = ShiftAssignment"
      by (auto simp: with_shift_def refers_def key_def)
    then show "cascaded db k' \<subseteq> with_shift db s"
    proof cases
      case 1
      then show ?thesis by (auto simp: cascaded_Shift with_shift_def)
    next
      case 2
      then show ?thesis by (cases k') (simp add: cascaded_none)
    qed
  qed
  show "with_shift db s \<subseteq> T" if "(Shift, s) \<in> T" "\<forall>k' \<in> T. cascaded db k' \<subseteq> T" for T
  proof
    fix k assume "k \<in> with_shift db s"
    then have "k = (Shift, s) \<or> k \<in> cascaded db (Shift, s)"
      by (auto simp: with_shift_def cascaded_Shift)
    with that show "k \<in> T" by blast
  qed
  show "\<forall>k' \<in> with_shift db s. referrers db PROTECT k' = []"
  proof
    fix k' assume "k' \<in> with_shift db s"
    from models [OF this] show "referrers db PROTECT k' = []"
      by (cases k') (auto simp: protect_none)
  qed
  show "\<forall>k' \<in> with_shift db s. nulled db k' = {}"
  proof
    fix k' assume "k' \<in> with_shift db s"
    from models [OF this] show "nulled db k' = {}"
      by (cases k') (auto simp: nulled_none)
  qed
qed

lemma with_user_nulled:
  "(\<Union>k \<in> with_user db u. nulled db k) = nulled db (User, u)"
proof -
  have "nulled db k = {}" if "k \<in> with_user db u" "k \<noteq> (User, u)" for k
  proof -
    from that have "fst k \<noteq> User" by (auto simp: with_user_def refers_def key_def)
    then show ?thesis by (cases k) (simp add: nulled_none)
  qed
  moreover have "(User, u) \<in> with_user db u" by (simp add: with_user_def)
  ultimately show ?thesis by blast
qed

lemma delete_User:
  assumes "(User, u) \<in> keys db"
  shows "\<exists>ups. set ups = nulled db (User, u)
     \<and> delete db (User, u) = Inr (map (set_null ups) (filter (\<lambda>r. key r \<notin> with_user db u) db))"
proof -
  have models: "fst k \<in> {User, Translator, TranslatorSpeaks, ShiftAssignment}"
    if "k \<in> with_user db u" for k
    using that by (auto simp: with_user_def refers_def key_def)
  have "\<exists>ups. set ups = (\<Union>k' \<in> with_user db u. nulled db k')
     \<and> delete db (User, u) = Inr (map (set_null ups) (filter (\<lambda>r. key r \<notin> with_user db u) db))"
  proof (rule delete_exact [OF assms])
    show "(User, u) \<in> with_user db u" by (simp add: with_user_def)
    show "\<forall>k' \<in> with_user db u. cascaded db k' \<subseteq> with_user db u"
    proof
      fix k' assume k': "k' \<in> with_user db u"
      then consider "k' = (User, u)" | "fst k' \<in> {Translator, TranslatorSpeaks, ShiftAssignment}"
        by (auto simp: with_user_def refers_def key_def)
      then show "cascaded db k' \<subseteq> with_user db u"
      proof cases
        case 1
        then show ?thesis by (auto simp: cascaded_User with_user_def)
      next
        case 2
        then show ?thesis by (cases k') (auto simp: cascaded_none)
      qed
    qed
    show "with_user db u \<subseteq> T" if "(User, u) \<in> T" "\<forall>k' \<in> T. cascaded db k' \<subseteq> T" for T
    proof
      fix k assume "k \<in> with_user db u"
      then have "k = (User, u) \<or> k \<in> cascaded db (User, u)"
        by (auto simp: with_user_def cascaded_User)
      with that show "k \<in> T" by blast
    qed
    show "\<forall>k' \<in> with_user db u. referrers db PROTECT k' = []"
    proof
      fix k' assume "k' \<in> with_user db u"
      from models [OF this] show "referrers db PROTECT k' = []"
        by (cases k') (auto simp: protect_none)
    qed
  qed
  then show ?thesis by (simp add: with_user_nulled)
qed

text \<open>
  Claim C5. For every ShiftAssignment, deleting the Shift it references succeeds and
  removes the ShiftAssignment, and so does deleting the user it references.
\<close>

theorem delete_cascades_to_ShiftAssignment:
  assumes "a \<in> set db"
  shows "(refers a ShiftAssignment ''shift'' s \<and> (Shift, s) \<in> set (map key db) \<longrightarrow>
            (\<exists>db'. delete db (Shift, s) = Inr db' \<and> key a \<notin> set (map key db') \<and> a \<notin> set db'))
       \<and> (refers a ShiftAssignment ''user'' u \<and> (User, u) \<in> set (map key db) \<longrightarrow>
            (\<exists>db'. delete db (User, u) = Inr db' \<and> key a \<notin> set (map key db') \<and> a \<notin> set db'))"
proof (intro conjI impI)
  assume h: "refers a ShiftAssignment ''shift'' s \<and> (Shift, s) \<in> set (map key db)"
  let ?db' = "filter (\<lambda>r. key r \<notin> with_shift db s) db"
  have "delete db (Shift, s) = Inr ?db'"
    using h by (simp add: delete_Shift keys_def)
  moreover have "key a \<in> with_shift db s"
    using h assms by (auto simp: with_shift_def)
  then have "key a \<notin> set (map key ?db')" "a \<notin> set ?db'" by auto
  ultimately show "\<exists>db'. delete db (Shift, s) = Inr db' \<and> key a \<notin> set (map key db') \<and> a \<notin> set db'"
    by blast
next
  assume h: "refers a ShiftAssignment ''user'' u \<and> (User, u) \<in> set (map key db)"
  then obtain ups where
    d: "delete db (User, u) = Inr (map (set_null ups) (filter (\<lambda>r. key r \<notin> with_user db u) db))"
    using delete_User [of u db] by (auto simp: keys_def)
  let ?db' = "map (set_null ups) (filter (\<lambda>r. key r \<notin> with_user db u) db)"
  have ka: "key a \<in> with_user db u"
    using h assms by (auto simp: with_user_def)
  have kk: "key (set_null ups r) = key r" for r
    by (simp add: set_null_def key_def)
  have "key a \<notin> set (map key ?db')"
    using ka by (auto simp: kk)
  moreover from this have "a \<notin> set ?db'" by force
  ultimately show "\<exists>db'. delete db (User, u) = Inr db' \<and> key a \<notin> set (map key db') \<and> a \<notin> set db'"
    using d by blast
qed

theorem delete_cascades_to_ShiftAssignment_witness:
  "assignment_1 \<in> set sample_db
   \<and> refers assignment_1 ShiftAssignment ''shift'' 1 \<and> (Shift, 1) \<in> set (map key sample_db)
   \<and> refers assignment_1 ShiftAssignment ''user'' 1 \<and> (User, 1) \<in> set (map key sample_db)
   \<and> (\<exists>db'. delete sample_db (Shift, 1) = Inr db' \<and> assignment_1 \<notin> set db')
   \<and> (\<exists>db'. delete sample_db (User, 1) = Inr db' \<and> assignment_1 \<notin> set db')"
proof -
  have k: "(Shift, 1) \<in> set (map key sample_db)" "(User, 1) \<in> set (map key sample_db)"
    by (simp_all add: sample_keys)
  from delete_cascades_to_ShiftAssignment [OF sample_members(9), of 1 1]
    k sample_refers(6,7) sample_members(9)
  show ?thesis by blast
qed

lemma map_of_map_key:
  "map_of (map (\<lambda>(n, v). (n, f n v)) xs) n = map_option (f n) (map_of xs n)"
  by (induction xs) auto

lemma attr_set_null:
  "attr (set_null ups r) n = (if (key r, n) \<in> set ups then PyNone else attr r n)"
proof -
  have "attrs (set_null ups r)
      = map (\<lambda>(n, v). (n, if (key r, n) \<in> set ups then PyNone else v)) (attrs r)"
    by (simp add: set_null_def case_prod_beta)
  then show ?thesis
    by (simp add: attr_def map_of_map_key split: option.splits)
qed

text \<open>
  Claim C9. For every Translation with an author, deleting that user succeeds and
  keeps the Translation: the row with the same primary key is still present, its
  \<^verbatim>\<open>author\<close> is \<^verbatim>\<open>None\<close>, and every other column (\<^verbatim>\<open>talk\<close>, \<^verbatim>\<open>language\<close>, \<^verbatim>\<open>title\<close>,
  \<^verbatim>\<open>subtitle\<close>, \<^verbatim>\<open>abstract\<close>, \<^verbatim>\<open>description\<close>) is unchanged.
\<close>

theorem delete_author_keeps_Translation:
  assumes "r \<in> set db" and "refers r Translation ''author'' u"
    and "(User, u) \<in> set (map key db)"
  shows "\<exists>db' r'. delete db (User, u) = Inr db' \<and> r' \<in> set db'
     \<and> row_model r' = Translation \<and> pk r' = pk r
     \<and> attr r' ''author'' = PyNone
     \<and> attr r' ''talk'' = attr r ''talk'' \<and> attr r' ''language'' = attr r ''language''
     \<and> attr r' ''title'' = attr r ''title'' \<and> attr r' ''subtitle'' = attr r ''subtitle''
     \<and> attr r' ''abstract'' = attr r ''abstract''
     \<and> attr r' ''description'' = attr r ''description''
     \<and> (\<forall>n. n \<noteq> ''author'' \<longrightarrow> attr r' n = attr r n)"
proof -
  from assms(3) obtain ups where ups: "set ups = nulled db (User, u)"
    and d: "delete db (User, u) = Inr (map (set_null ups) (filter (\<lambda>r. key r \<notin> with_user db u) db))"
    using delete_User [of u db] by (auto simp: keys_def)
  let ?r' = "set_null ups r"
  have "key r \<notin> with_user db u"
    using assms(2) by (auto simp: with_user_def refers_def key_def)
  then have in': "?r' \<in> set (map (set_null ups) (filter (\<lambda>r. key r \<notin> with_user db u) db))"
    using assms(1) by auto
  have up: "(key r, n) \<in> set ups \<longleftrightarrow> n = ''author''" for n
    using assms(1,2) by (auto simp: ups nulled_User)
  have a: "attr ?r' n = (if n = ''author'' then PyNone else attr r n)" for n
    by (simp add: attr_set_null up)
  have m: "row_model ?r' = Translation" "pk ?r' = pk r"
    using assms(2) by (simp_all add: set_null_def refers_def)
  from d in' m show ?thesis
    by (intro exI [of _ "map (set_null ups) (filter (\<lambda>r. key r \<notin> with_user db u) db)"]
        exI [of _ ?r']) (simp add: a)
qed

theorem delete_author_keeps_Translation_witness:
  "translation_1 \<in> set sample_db \<and> refers translation_1 Translation ''author'' 1
   \<and> (User, 1) \<in> set (map key sample_db)
   \<and> (\<exists>db' r'. delete sample_db (User, 1) = Inr db' \<and> r' \<in> set db'
        \<and> row_model r' = Translation \<and> pk r' = 1 \<and> attr r' ''author'' = PyNone
        \<and> attr r' ''talk'' = PyKey 1 \<and> attr r' ''language'' = PyKey 2
        \<and> attr r' ''title'' = PyStr ''Eroeffnung'')"
proof -
  have k: "(User, 1) \<in> set (map key sample_db)"
    by (simp add: sample_keys)
  have a: "pk translation_1 = 1" "attr translation_1 ''talk'' = PyKey 1"
    "attr translation_1 ''language'' = PyKey 2"
    "attr translation_1 ''title'' = PyStr ''Eroeffnung''"
    by (simp_all add: attr_def translation_1_def translation_row_def)
  from delete_author_keeps_Translation [OF sample_members(4) sample_refers(2) k]
  obtain db' r' where "delete sample_db (User, 1) = Inr db'" "r' \<in> set db'"
    "row_model r' = Translation" "pk r' = pk translation_1" "attr r' ''author'' = PyNone"
    "attr r' ''talk'' = attr translation_1 ''talk''"
    "attr r' ''language'' = attr translation_1 ''language''"
    "attr r' ''title'' = attr translation_1 ''title''"
    by blast
  with a sample_members(4) sample_refers(2) k show ?thesis by metis
qed

section \<open>Protected deletion\<close>

lemma delete_absent_filter:
  "k \<notin> keys db \<Longrightarrow> delete db k = Inr (filter (\<lambda>r. key r \<noteq> k) db)"
proof -
  assume a: "k \<notin> keys db"
  then have "filter (\<lambda>r. key r \<noteq> k) db = db"
    by (auto simp: keys_def filter_id_conv)
  with a show ?thesis by (simp add: delete_absent)
qed

lemma delete_single:
  assumes "referrers db PROTECT k = []" and "cascaded db k = {}" and "nulled db k = {}"
  shows "delete db k = Inr (filter (\<lambda>r. key r \<noteq> k) db)"
proof (cases "k \<in> keys db")
  case True
  have "delete db k = Inr (filter (\<lambda>r. key r \<notin> {k}) db)"
    by (rule delete_exact_plain [OF True]) (use assms in auto)
  then show ?thesis by simp
next
  case False
  then show ?thesis by (rule delete_absent_filter)
qed

lemma delete_Room:
  assumes "delete db (Room, i) = Inr db'"
  shows "db' = filter (\<lambda>r. key r \<noteq> (Room, i)) db"
proof (cases "(Room, i) \<in> keys db")
  case True
  have "referrers db PROTECT (Room, i) = []"
  proof (rule ccontr)
    assume "referrers db PROTECT (Room, i) \<noteq> []"
    from delete_protected [OF True this] assms show False by simp
  qed
  then have "delete db (Room, i) = Inr (filter (\<lambda>r. key r \<noteq> (Room, i)) db)"
    by (intro delete_single) (simp_all add: cascaded_none nulled_none)
  with assms show ?thesis by simp
next
  case False
  from delete_absent_filter [OF this] assms show ?thesis by simp
qed

lemma delete_all_Rooms:
  "\<forall>k \<in> set ks. fst k = Room \<Longrightarrow> delete_all db ks = Inr db' \<Longrightarrow>
   db' = filter (\<lambda>r. key r \<notin> set ks) db"
proof (induction ks arbitrary: db)
  case Nil
  then show ?case by simp
next
  case (Cons k ks)
  from Cons.prems(1) obtain i where k: "k = (Room, i)" by (cases k) auto
  from Cons.prems(2) obtain db1 where d: "delete db k = Inr db1" and r: "delete_all db1 ks = Inr db'"
    by (auto split: sum.splits)
  from d k have db1: "db1 = filter (\<lambda>r. key r \<noteq> k) db" by (simp add: delete_Room)
  from Cons.IH [OF _ r] Cons.prems(1) have "db' = filter (\<lambda>r. key r \<notin> set ks) db1" by simp
  with db1 show ?case by (auto intro: filter_cong)
qed

lemma delete_Conference_blocked:
  assumes "(Conference, c) \<in> keys db" and "rooms_of db c \<noteq> [] \<or> talks_of db c \<noteq> []"
  shows "delete db (Conference, c) = Inl ProtectedError"
proof -
  from assms(2) have "\<exists>r \<in> set db. refers r Room ''conference'' c \<or> refers r Talk ''conference'' c"
    by (auto simp: rooms_of_def talks_of_def filter_empty_conv)
  then have "referrers db PROTECT (Conference, c) \<noteq> []"
    by (simp add: protect_Conference)
  from delete_protected [OF assms(1) this] show ?thesis .
qed

lemma delete_Conference_free:
  assumes "rooms_of db c = []" and "talks_of db c = []"
  shows "delete db (Conference, c) = Inr (filter (\<lambda>r. key r \<noteq> (Conference, c)) db)"
proof -
  from assms have "\<not> (\<exists>r \<in> set db. refers r Room ''conference'' c \<or> refers r Talk ''conference'' c)"
    by (auto simp: rooms_of_def talks_of_def filter_empty_conv)
  then have "referrers db PROTECT (Conference, c) = []"
    using protect_Conference [of db c] by blast
  then show ?thesis
    by (intro delete_single) (simp_all add: cascaded_none nulled_none)
qed

lemma stray_delete_Room:
  "delete stray_db (Room, 1) = Inr [lang_en, conf_36c3, conf_camp, room_tent, talk_stray]"
proof -
  have "\<not> (\<exists>r \<in> set stray_db. refers r Talk ''room'' 1 \<or> refers r Booth ''room'' 1)"
    by (simp add: stray_db_def refers_def sample_rows conf_camp_def room_tent_def talk_stray_def attr_def)
  then have "referrers stray_db PROTECT (Room, 1) = []"
    using protect_Room [of stray_db 1] by blast
  then have "delete stray_db (Room, 1) = Inr (filter (\<lambda>r. key r \<noteq> (Room, 1)) stray_db)"
    by (intro delete_single) (simp_all add: cascaded_none nulled_none)
  then show ?thesis
    by (simp add: stray_db_def key_def sample_rows conf_camp_def room_tent_def talk_stray_def)
qed

lemma venue_delete_Room: "delete venue_db (Room, 1) = Inr [lang_en, conf_36c3]"
proof -
  have "\<not> (\<exists>r \<in> set venue_db. refers r Talk ''room'' 1 \<or> refers r Booth ''room'' 1)"
    by (simp add: venue_db_def refers_def sample_rows)
  then have "referrers venue_db PROTECT (Room, 1) = []"
    using protect_Room [of venue_db 1] by blast
  then have "delete venue_db (Room, 1) = Inr (filter (\<lambda>r. key r \<noteq> (Room, 1)) venue_db)"
    by (intro delete_single) (simp_all add: cascaded_none nulled_none)
  then show ?thesis
    by (simp add: venue_db_def key_def sample_rows)
qed

text \<open>
  Claim C4, as amended. Deleting an existing Conference that still has a Room fails
  with \<^verbatim>\<open>ProtectedError\<close>, and the database stays as it was. Once every Room of the
  Conference has been deleted, no Room references it any more, and deleting the
  Conference succeeds and removes exactly that row, provided that no Talk references
  the Conference.
\<close>

theorem delete_Conference_protected:
  assumes "(Conference, c) \<in> set (map key db)"
  shows "(rooms_of db c \<noteq> [] \<longrightarrow> delete db (Conference, c) = Inl ProtectedError)
     \<and> (\<forall>db1. delete_all db (map key (rooms_of db c)) = Inr db1 \<and> talks_of db c = [] \<longrightarrow>
           rooms_of db1 c = []
         \<and> (Conference, c) \<in> set (map key db1)
         \<and> delete db1 (Conference, c) = Inr (filter (\<lambda>r. key r \<noteq> (Conference, c)) db1)
         \<and> (Conference, c) \<notin> set (map key (filter (\<lambda>r. key r \<noteq> (Conference, c)) db1)))"
proof (intro conjI impI allI)
  assume "rooms_of db c \<noteq> []"
  then show "delete db (Conference, c) = Inl ProtectedError"
    using assms by (intro delete_Conference_blocked) (simp_all add: keys_def)
next
  fix db1
  assume h: "delete_all db (map key (rooms_of db c)) = Inr db1 \<and> talks_of db c = []"
  have "\<forall>k \<in> set (map key (rooms_of db c)). fst k = Room"
    by (auto simp: rooms_of_def refers_def key_def)
  from delete_all_Rooms [OF this] h
  have db1: "db1 = filter (\<lambda>r. key r \<notin> set (map key (rooms_of db c))) db" by simp
  show r: "rooms_of db1 c = []"
    by (auto simp: db1 rooms_of_def filter_empty_conv)
  have t: "talks_of db1 c = []"
    using h by (auto simp: db1 talks_of_def filter_empty_conv)
  show "(Conference, c) \<in> set (map key db1)"
    using assms by (auto simp: db1 rooms_of_def refers_def key_def)
  show "delete db1 (Conference, c) = Inr (filter (\<lambda>r. key r \<noteq> (Conference, c)) db1)"
    using r t by (rule delete_Conference_free)
  show "(Conference, c) \<notin> set (map key (filter (\<lambda>r. key r \<noteq> (Conference, c)) db1))"
    by auto
qed

theorem delete_Conference_protected_witness:
  "(Conference, 1) \<in> set (map key venue_db) \<and> rooms_of venue_db 1 \<noteq> []
   \<and> delete venue_db (Conference, 1) = Inl ProtectedError
   \<and> delete_all venue_db (map key (rooms_of venue_db 1)) = Inr [lang_en, conf_36c3]
   \<and> talks_of venue_db 1 = []
   \<and> delete [lang_en, conf_36c3] (Conference, 1) = Inr [lang_en]"
proof -
  have k: "(Conference, 1) \<in> set (map key venue_db)"
    by (simp add: venue_db_def key_def sample_rows)
  have r: "rooms_of venue_db 1 = [room_ada]"
    by (simp add: rooms_of_def venue_db_def refers_def attr_def sample_rows)
  have t: "talks_of venue_db 1 = []"
    by (simp add: talks_of_def venue_db_def refers_def attr_def sample_rows)
  have a: "delete_all venue_db (map key (rooms_of venue_db 1)) = Inr [lang_en, conf_36c3]"
  proof -
    have kr: "map key (rooms_of venue_db 1) = [(Room, 1)]"
      unfolding r by (simp add: key_def room_ada_def)
    show ?thesis
      by (simp only: kr delete_all.simps venue_delete_Room sum.case)
  qed
  have f: "filter (\<lambda>r. key r \<noteq> (Conference, 1)) [lang_en, conf_36c3] = [lang_en]"
    by (simp add: key_def sample_rows)
  from delete_Conference_protected [OF k] r a t f k show ?thesis by simp
qed

text \<open>
  The proviso is needed. In \<open>stray_db\<close> a Talk of conference 1 is held in a room of
  conference 2. The only Room of conference 1 can be deleted, and the Conference is
  still protected, by the Talk (\<^verbatim>\<open>Talk.conference\<close> is declared with \<^verbatim>\<open>PROTECT\<close>).
\<close>

theorem delete_Conference_after_Rooms_counterexample:
  "rooms_of stray_db 1 = [room_ada]
   \<and> delete stray_db (Room, 1) = Inr [lang_en, conf_36c3, conf_camp, room_tent, talk_stray]
   \<and> rooms_of [lang_en, conf_36c3, conf_camp, room_tent, talk_stray] 1 = []
   \<and> delete [lang_en, conf_36c3, conf_camp, room_tent, talk_stray] (Conference, 1)
       = Inl ProtectedError"
proof -
  let ?db = "[lang_en, conf_36c3, conf_camp, room_tent, talk_stray]"
  have 1: "rooms_of stray_db 1 = [room_ada]"
    by (simp add: rooms_of_def stray_db_def refers_def sample_rows conf_camp_def room_tent_def
        talk_stray_def attr_def)
  have 3: "rooms_of ?db 1 = []"
    by (simp add: rooms_of_def refers_def sample_rows conf_camp_def room_tent_def
        talk_stray_def attr_def)
  have t: "talks_of ?db 1 \<noteq> []"
    by (simp add: talks_of_def refers_def sample_rows conf_camp_def room_tent_def
        talk_stray_def attr_def)
  have k: "(Conference, 1) \<in> keys ?db"
    by (simp add: keys_def key_def sample_rows)
  have 4: "delete ?db (Conference, 1) = Inl ProtectedError"
    using k t by (intro delete_Conference_blocked) simp_all
  from 1 stray_delete_Room 3 4 show ?thesis by simp
qed

section \<open>Creating rows: uniqueness\<close>




lemma unique_sets_simps:
  "unique_sets Translation = [[''talk'', ''language'']]"
  "unique_sets Talk = [[''conference'', ''fahrplan_id'']]"
  "unique_sets Translator = [[''user'']]"
  by (simp_all add: unique_sets_def is_unique_def TalkBaseModel_def)








lemma init_Translator:
  "init_attrs (fields_of Translator) [(''user'', PyKey u), (''confirmed'', PyBool b)] g =
     ([(''user'', PyKey u), (''confirmed'', PyBool b), (''bio'', PyStr []),
       (''contact_info'', PyStr []),
       (''secret_token'', PyStr (fst (get_random_string 64 g)))],
      snd (get_random_string 64 g))"
  by (simp add: get_default_def empty_strings_allowed_def split_beta)



lemma create_Translator_ok:
  assumes "(User, u) \<in> set (map key db)"
    and "\<not> (\<exists>x \<in> set db. refers x Translator ''user'' u)"
  shows "create Translator [(''user'', PyKey u), (''confirmed'', PyBool b)] db g =
     (let x = \<lparr>row_model = Translator, pk = next_pk db Translator,
                attrs = [(''user'', PyKey u), (''confirmed'', PyBool b), (''bio'', PyStr []),
                         (''contact_info'', PyStr []),
                         (''secret_token'', PyStr (fst (get_random_string 64 g)))]\<rparr>
      in (Inr (db @ [x], x), snd (get_random_string 64 g)))"
proof -
  let ?as = "[(''user'', PyKey u), (''confirmed'', PyBool b), (''bio'', PyStr []),
       (''contact_info'', PyStr []),
       (''secret_token'', PyStr (fst (get_random_string 64 g)))]"
  have n: "not_null_ok Translator ?as"
    by (simp add: not_null_ok_def column_def)
  have k: "fk_ok db Translator ?as"
    using assms(1) by (simp add: fk_ok_def column_def fk_target_def)
  have c: "\<not> conflicts db Translator ?as [''user'']"
    using assms(2) by (auto simp: conflicts_def column_def refers_def)
  have i: "insert_row db Translator ?as =
      Inr (db @ [\<lparr>row_model = Translator, pk = next_pk db Translator, attrs = ?as\<rparr>],
           \<lparr>row_model = Translator, pk = next_pk db Translator, attrs = ?as\<rparr>)"
    using n k c by (simp add: insert_row_def unique_sets_simps Let_def)
  show ?thesis
    unfolding create_def init_Translator
    by (simp add: i lookup_field_def TalkBaseModel_def Let_def)
qed



section \<open>Creating rows: the secret token\<close>

lemma length_allowed_chars: "length allowed_chars = 62"
  by (simp add: allowed_chars_def)

lemma distinct_allowed_chars: "distinct allowed_chars"
  by (simp add: allowed_chars_def)

lemma get_random_string_eq:
  "get_random_string n g =
     (map (\<lambda>i. allowed_chars ! (g i mod length allowed_chars)) [0..<n], \<lambda>i. g (i + n))"
proof (induction n arbitrary: g)
  case 0
  then show ?case by simp
next
  case (Suc n)
  have "map (\<lambda>i. allowed_chars ! (g i mod length allowed_chars)) [0..<Suc n]
      = allowed_chars ! (g 0 mod length allowed_chars)
        # map (\<lambda>i. allowed_chars ! (g (Suc i) mod length allowed_chars)) [0..<n]"
    by (simp only: map_upt_Suc)
  then show ?case
    by (simp add: Suc.IH choice_def)
qed

lemma token_fst:
  "fst (get_random_string n g) = map (\<lambda>i. allowed_chars ! (g i mod 62)) [0..<n]"
  by (simp add: get_random_string_eq length_allowed_chars)

lemma token_snd: "snd (get_random_string n g) = (\<lambda>i. g (i + n))"
  by (simp add: get_random_string_eq)

lemma token_length: "length (fst (get_random_string n g)) = n"
  by (simp add: token_fst)

lemma token_chars: "set (fst (get_random_string n g)) \<subseteq> set allowed_chars"
  by (auto simp: token_fst length_allowed_chars)

lemma token_second:
  "fst (get_random_string n (snd (get_random_string n g)))
     = map (\<lambda>i. allowed_chars ! (g (n + i) mod 62)) [0..<n]"
  by (simp add: token_fst token_snd add.commute)

lemma tokens_of_draws:
  assumes "length ds = 2 * n" and "set ds \<subseteq> {..<62}"
  shows "fst (get_random_string n (draws ds)) = map ((!) allowed_chars) (take n ds)"
    and "fst (get_random_string n (snd (get_random_string n (draws ds))))
           = map ((!) allowed_chars) (drop n ds)"
proof -
  have lt: "ds ! i < 62" if "i < 2 * n" for i
    using assms that by (auto simp: subset_iff)
  show "fst (get_random_string n (draws ds)) = map ((!) allowed_chars) (take n ds)"
    using assms(1) lt by (auto simp: token_fst draws_def intro!: nth_equalityI)
  show "fst (get_random_string n (snd (get_random_string n (draws ds))))
           = map ((!) allowed_chars) (drop n ds)"
    using assms(1) lt by (auto simp: token_second draws_def intro!: nth_equalityI)
qed

lemma inj_allowed: "inj_on ((!) allowed_chars) {..<62}"
  using distinct_allowed_chars
  by (auto simp: inj_on_def distinct_conv_nth length_allowed_chars)

lemma tokens_equal_iff:
  assumes "length ds = 2 * n" and "set ds \<subseteq> {..<62}"
  shows "fst (get_random_string n (draws ds))
           = fst (get_random_string n (snd (get_random_string n (draws ds))))
         \<longleftrightarrow> take n ds = drop n ds"
proof -
  have "inj_on (map ((!) allowed_chars)) {xs. set xs \<subseteq> {..<62}}"
    by (rule inj_on_mapI) (rule inj_on_subset [OF inj_allowed], auto)
  moreover have "take n ds \<in> {xs. set xs \<subseteq> {..<62}}" "drop n ds \<in> {xs. set xs \<subseteq> {..<62}}"
    using assms(2) by (auto dest: in_set_takeD in_set_dropD)
  ultimately show ?thesis
    by (auto simp: tokens_of_draws [OF assms] dest: inj_onD)
qed

lemma card_draws: "card {ds. length ds = n \<and> set ds \<subseteq> {..<(62::nat)}} = 62 ^ n"
proof -
  have "{ds. length ds = n \<and> set ds \<subseteq> {..<(62::nat)}} = {ds. set ds \<subseteq> {..<62} \<and> length ds = n}"
    by auto
  then show ?thesis by (simp add: card_lists_length_eq)
qed

lemma card_equal_tokens:
  "card {ds. length ds = 2 * n \<and> set ds \<subseteq> {..<62}
           \<and> fst (get_random_string n (draws ds))
               = fst (get_random_string n (snd (get_random_string n (draws ds))))} = 62 ^ n"
proof -
  let ?L = "{xs. length xs = n \<and> set xs \<subseteq> {..<(62::nat)}}"
  have "{ds. length ds = 2 * n \<and> set ds \<subseteq> {..<62}
           \<and> fst (get_random_string n (draws ds))
               = fst (get_random_string n (snd (get_random_string n (draws ds))))}
      = {ds. length ds = 2 * n \<and> set ds \<subseteq> {..<62} \<and> take n ds = drop n ds}"
    using tokens_equal_iff by blast
  also have "\<dots> = (\<lambda>xs. xs @ xs) ` ?L"
  proof (intro equalityI subsetI)
    fix ds :: "nat list"
    assume "ds \<in> {ds. length ds = 2 * n \<and> set ds \<subseteq> {..<62} \<and> take n ds = drop n ds}"
    then have l: "length ds = 2 * n" and s: "set ds \<subseteq> {..<62}" and e: "take n ds = drop n ds"
      by auto
    have "ds = take n ds @ drop n ds" by simp
    with e have "ds = take n ds @ take n ds" by simp
    moreover have "take n ds \<in> ?L" using l s by (auto dest: in_set_takeD)
    ultimately show "ds \<in> (\<lambda>xs. xs @ xs) ` ?L" by blast
  next
    fix ds :: "nat list"
    assume "ds \<in> (\<lambda>xs. xs @ xs) ` ?L"
    then show "ds \<in> {ds. length ds = 2 * n \<and> set ds \<subseteq> {..<62} \<and> take n ds = drop n ds}"
      by auto
  qed
  also have "card \<dots> = card ?L"
    by (rule card_image) (auto simp: inj_on_def)
  also have "\<dots> = 62 ^ n" by (rule card_draws)
  finally show ?thesis .
qed

lemma create_result:
  assumes "create m kw db g = (Inr (db', r), g')"
  shows "db' = db @ [r]" and "row_model r = m"
    and "attrs r = fst (init_attrs (fields_of m) kw g)"
    and "g' = snd (init_attrs (fields_of m) kw g)"
  using assms
  by (auto simp: create_def insert_row_def split_beta Let_def split: if_splits)

lemma init_Translator_token:
  assumes "map_of kw ''secret_token'' = None"
  shows "column (fst (init_attrs (fields_of Translator) kw g)) ''secret_token''
           = PyStr (fst (get_random_string 64 g))"
    and "snd (init_attrs (fields_of Translator) kw g) = snd (get_random_string 64 g)"
  using assms
  by (simp_all add: get_default_def split_beta column_def split: option.splits)

lemma attr_column: "attr r n = column (attrs r) n"
  by (simp add: attr_def column_def)

lemma token_example:
  "fst (get_random_string 64 (\<lambda>i. i))
     = ''abcdefghijklmnopqrstuvwxyzABCDEFGHIJKLMNOPQRSTUVWXYZ0123456789ab''"
  by code_simp

text \<open>
  Claim C6. A Translator created without an explicit token stores the result of
  \<^verbatim>\<open>get_random_string(64)\<close> evaluated during that creation: 64 characters of the
  alphabet, one per draw of the random source. The tokens of two successive creations
  are computed from disjoint draws (the first from draws 0 to 63, the second from draws
  64 to 127), so they are independent. Nothing forces them to differ: of the
  \<open>62 ^ 128\<close> equally likely sequences of 128 draws, exactly \<open>62 ^ 64\<close> give two equal
  tokens, that is one sequence in \<open>62 ^ 64\<close>.
\<close>

theorem secret_token_random:
  "(\<forall>db1 r1 g1 db2 r2 g2.
      map_of kw1 ''secret_token'' = None \<and> map_of kw2 ''secret_token'' = None
      \<and> create Translator kw1 db g = (Inr (db1, r1), g1)
      \<and> create Translator kw2 db1 g1 = (Inr (db2, r2), g2)
      \<longrightarrow> attr r1 ''secret_token'' = PyStr (fst (get_random_string 64 g))
        \<and> attr r2 ''secret_token''
            = PyStr (fst (get_random_string 64 (snd (get_random_string 64 g))))
        \<and> r1 \<in> set db2 \<and> r2 \<in> set db2)
   \<and> length (fst (get_random_string 64 g)) = 64
   \<and> set (fst (get_random_string 64 g)) \<subseteq> set allowed_chars
   \<and> fst (get_random_string 64 g) = map (\<lambda>i. allowed_chars ! (g i mod 62)) [0..<64]
   \<and> fst (get_random_string 64 (snd (get_random_string 64 g)))
       = map (\<lambda>i. allowed_chars ! (g (64 + i) mod 62)) [0..<64]
   \<and> card {ds. length ds = 128 \<and> set ds \<subseteq> {..<62::nat}} = 62 ^ 128
   \<and> card {ds. length ds = 128 \<and> set ds \<subseteq> {..<62}
             \<and> fst (get_random_string 64 (draws ds))
                 = fst (get_random_string 64 (snd (get_random_string 64 (draws ds))))}
       = 62 ^ 64"
proof (intro conjI allI impI)
  fix db1 r1 g1 db2 r2 g2
  assume h: "map_of kw1 ''secret_token'' = None \<and> map_of kw2 ''secret_token'' = None
      \<and> create Translator kw1 db g = (Inr (db1, r1), g1)
      \<and> create Translator kw2 db1 g1 = (Inr (db2, r2), g2)"
  from h have c1: "create Translator kw1 db g = (Inr (db1, r1), g1)"
    and c2: "create Translator kw2 db1 g1 = (Inr (db2, r2), g2)" by simp_all
  from h have n1: "map_of kw1 ''secret_token'' = None"
    and n2: "map_of kw2 ''secret_token'' = None" by simp_all
  have "g1 = snd (init_attrs (fields_of Translator) kw1 g)"
    by (rule create_result(4) [OF c1])
  also have "\<dots> = snd (get_random_string 64 g)"
    by (rule init_Translator_token(2) [OF n1])
  finally have g1: "g1 = snd (get_random_string 64 g)" .
  have "attr r1 ''secret_token''
      = column (fst (init_attrs (fields_of Translator) kw1 g)) ''secret_token''"
    by (simp only: attr_column create_result(3) [OF c1])
  also have "\<dots> = PyStr (fst (get_random_string 64 g))"
    by (rule init_Translator_token(1) [OF n1])
  finally show "attr r1 ''secret_token'' = PyStr (fst (get_random_string 64 g))" .
  have "attr r2 ''secret_token''
      = column (fst (init_attrs (fields_of Translator) kw2 g1)) ''secret_token''"
    by (simp only: attr_column create_result(3) [OF c2])
  also have "\<dots> = PyStr (fst (get_random_string 64 g1))"
    by (rule init_Translator_token(1) [OF n2])
  finally show "attr r2 ''secret_token''
      = PyStr (fst (get_random_string 64 (snd (get_random_string 64 g))))"
    by (simp only: g1)
  show "r1 \<in> set db2" "r2 \<in> set db2"
    using create_result(1) [OF c1] create_result(1) [OF c2] by simp_all
next
  show "length (fst (get_random_string 64 g)) = 64" by (rule token_length)
  show "set (fst (get_random_string 64 g)) \<subseteq> set allowed_chars" by (rule token_chars)
  show "fst (get_random_string 64 g) = map (\<lambda>i. allowed_chars ! (g i mod 62)) [0..<64]"
    by (rule token_fst)
  show "fst (get_random_string 64 (snd (get_random_string 64 g)))
       = map (\<lambda>i. allowed_chars ! (g (64 + i) mod 62)) [0..<64]"
    by (rule token_second)
  show "card {ds. length ds = 128 \<and> set ds \<subseteq> {..<62::nat}} = 62 ^ 128"
    by (rule card_draws)
  show "card {ds. length ds = 128 \<and> set ds \<subseteq> {..<62}
             \<and> fst (get_random_string 64 (draws ds))
                 = fst (get_random_string 64 (snd (get_random_string 64 (draws ds))))}
       = 62 ^ 64"
    using card_equal_tokens [of 64] by simp
qed

theorem secret_token_random_witness:
  "map_of (translator_kwargs 1 True) ''secret_token'' = None
   \<and> map_of (translator_kwargs 2 False) ''secret_token'' = None
   \<and> (\<exists>db1 r1 g1 db2 r2 g2.
        create Translator (translator_kwargs 1 True) users_db (\<lambda>i. i) = (Inr (db1, r1), g1)
        \<and> create Translator (translator_kwargs 2 False) db1 g1 = (Inr (db2, r2), g2)
        \<and> attr r1 ''secret_token''
            = PyStr ''abcdefghijklmnopqrstuvwxyzABCDEFGHIJKLMNOPQRSTUVWXYZ0123456789ab''
        \<and> attr r2 ''secret_token''
            = PyStr (fst (get_random_string 64 (snd (get_random_string 64 (\<lambda>i. i)))))
        \<and> r1 \<in> set db2 \<and> r2 \<in> set db2)
   \<and> length ''abcdefghijklmnopqrstuvwxyzABCDEFGHIJKLMNOPQRSTUVWXYZ0123456789ab'' = 64"
proof -
  let ?g = "\<lambda>i::nat. i"
  let ?r1 = "\<lparr>row_model = Translator, pk = next_pk users_db Translator,
                attrs = [(''user'', PyKey 1), (''confirmed'', PyBool True), (''bio'', PyStr []),
                         (''contact_info'', PyStr []),
                         (''secret_token'', PyStr (fst (get_random_string 64 ?g)))]\<rparr>"
  let ?db1 = "users_db @ [?r1]"
  let ?g1 = "snd (get_random_string 64 ?g)"
  let ?r2 = "\<lparr>row_model = Translator, pk = next_pk ?db1 Translator,
                attrs = [(''user'', PyKey 2), (''confirmed'', PyBool False), (''bio'', PyStr []),
                         (''contact_info'', PyStr []),
                         (''secret_token'', PyStr (fst (get_random_string 64 ?g1)))]\<rparr>"
  have n: "map_of (translator_kwargs 1 True) ''secret_token'' = None"
    "map_of (translator_kwargs 2 False) ''secret_token'' = None"
    by (simp_all add: translator_kwargs_def)
  have k1: "(User, 1) \<in> set (map key users_db)"
    and f1: "\<not> (\<exists>x \<in> set users_db. refers x Translator ''user'' 1)"
    by (simp_all add: users_db_def key_def refers_def sample_rows)
  have k2: "(User, 2) \<in> set (map key ?db1)"
    and f2: "\<not> (\<exists>x \<in> set ?db1. refers x Translator ''user'' 2)"
    by (simp_all add: users_db_def key_def refers_def attr_def sample_rows)
  have c1: "create Translator (translator_kwargs 1 True) users_db ?g = (Inr (?db1, ?r1), ?g1)"
    using create_Translator_ok [OF k1 f1, of True ?g]
    by (simp add: translator_kwargs_def Let_def)
  have c2: "create Translator (translator_kwargs 2 False) ?db1 ?g1
      = (Inr (?db1 @ [?r2], ?r2), snd (get_random_string 64 ?g1))"
    using create_Translator_ok [OF k2 f2, of False ?g1]
    by (simp add: translator_kwargs_def Let_def)
  from secret_token_random [of "translator_kwargs 1 True" "translator_kwargs 2 False" users_db ?g]
    n c1 c2
  have t: "attr ?r1 ''secret_token'' = PyStr (fst (get_random_string 64 ?g))"
    "attr ?r2 ''secret_token''
       = PyStr (fst (get_random_string 64 (snd (get_random_string 64 ?g))))"
    "?r1 \<in> set (?db1 @ [?r2])" "?r2 \<in> set (?db1 @ [?r2])"
    "length (fst (get_random_string 64 ?g)) = 64"
    by blast+
  from t(5) have l: "length ''abcdefghijklmnopqrstuvwxyzABCDEFGHIJKLMNOPQRSTUVWXYZ0123456789ab'' = 64"
    by (simp only: token_example)
  from t(1) have t1: "attr ?r1 ''secret_token''
      = PyStr ''abcdefghijklmnopqrstuvwxyzABCDEFGHIJKLMNOPQRSTUVWXYZ0123456789ab''"
    by (simp only: token_example)
  from n c1 c2 t1 t(2,3,4) l show ?thesis by blast
qed

end
